theory Spec2Isabelle
  imports Complex_Main
begin


section \<open>Numbers and time\<close>

text \<open>
  The Go sources compute token counts in \<^verbatim>\<open>float64\<close> and the Lua scripts in Lua numbers.
  This development reads them as exact rationals: rounding is outside its scope, the
  comparisons and the order of the arithmetic operations are those of the code.
  A clock reading (Go's \<^verbatim>\<open>time.Now()\<close>, the scripts' \<^verbatim>\<open>now\<close> argument) is a rational number of
  seconds; every function that reads the clock takes the reading as an argument.
\<close>

section \<open>The in-process limiter (package memory)\<close>

record TokenBucket =
  capacity :: rat
  refillRate :: rat
  tokens :: rat
  lastRefillTime :: rat

text \<open>\<^verbatim>\<open>NewTokenBucket(capacity, refillRate)\<close>: starts full, stamped with the clock.\<close>

definition NewTokenBucket :: "rat \<Rightarrow> rat \<Rightarrow> rat \<Rightarrow> TokenBucket" where
  "NewTokenBucket cap rate now =
     \<lparr>capacity = cap, refillRate = rate, tokens = cap, lastRefillTime = now\<rparr>"

text \<open>
  \<^verbatim>\<open>refill()\<close>: \<^verbatim>\<open>tokensToAdd := duration.Seconds() * refillRate\<close>; tokens are added only
  below capacity, and capped only then; \<^verbatim>\<open>lastRefillTime = now\<close> in every case.
\<close>

definition refill :: "rat \<Rightarrow> TokenBucket \<Rightarrow> TokenBucket" where
  "refill now tb =
     (let duration = now - lastRefillTime tb;
          tokensToAdd = duration * refillRate tb;
          tb1 = (if tokens tb < capacity tb
                 then (let tb2 = tb\<lparr>tokens := tokens tb + tokensToAdd\<rparr>
                       in if tokens tb2 > capacity tb2
                          then tb2\<lparr>tokens := capacity tb2\<rparr> else tb2)
                 else tb)
      in tb1\<lparr>lastRefillTime := now\<rparr>)"

text \<open>
  \<^verbatim>\<open>Allow(key)\<close>: the key is ignored by this implementation; the error result is always
  nil and is left out.
\<close>

definition Allow :: "rat \<Rightarrow> string \<Rightarrow> TokenBucket \<Rightarrow> bool \<times> TokenBucket" where
  "Allow now key tb =
     (let tb1 = refill now tb
      in if tokens tb1 \<ge> 1 then (True, tb1\<lparr>tokens := tokens tb1 - 1\<rparr>)
         else (False, tb1))"

text \<open>\<^verbatim>\<open>Available()\<close>: refills, then reports the count; the refill is kept.\<close>

definition Available :: "rat \<Rightarrow> TokenBucket \<Rightarrow> rat \<times> TokenBucket" where
  "Available now tb = (let tb1 = refill now tb in (tokens tb1, tb1))"

text \<open>\<^verbatim>\<open>Refill(key, tokens)\<close>: adds, without a cap and without reading the clock.\<close>

definition Refill :: "string \<Rightarrow> rat \<Rightarrow> TokenBucket \<Rightarrow> TokenBucket" where
  "Refill key amount tb = tb\<lparr>tokens := tokens tb + amount\<rparr>"

text \<open>A run of \<^verbatim>\<open>Allow\<close> calls at the given clock readings, as the loops of the tests do.\<close>

fun Allow_seq :: "rat list \<Rightarrow> string \<Rightarrow> TokenBucket \<Rightarrow> bool list \<times> TokenBucket" where
  "Allow_seq [] key tb = ([], tb)"
| "Allow_seq (t # ts) key tb =
     (let (b, tb1) = Allow t key tb; (bs, tb2) = Allow_seq ts key tb1
      in (b # bs, tb2))"

section \<open>The shared limiter (package redis)\<close>

text \<open>
  A bucket is a Redis hash with the fields \<^verbatim>\<open>tokens\<close> and \<^verbatim>\<open>last_refill\<close>; either may be
  absent (\<^verbatim>\<open>HSET\<close> on a missing key creates a hash with one field). \<open>h_ttl\<close> is the
  time to live of the key, in seconds, as \<^verbatim>\<open>EXPIRE\<close> sets it. The server's clock is not
  modelled: that the time to live of a key has run out is an event of a run (below).
\<close>

record rhash =
  h_tokens :: "rat option"
  h_last_refill :: "rat option"
  h_ttl :: "int option"

type_synonym store = "string \<rightharpoonup> rhash"

definition empty_hash :: rhash where
  "empty_hash = \<lparr>h_tokens = None, h_last_refill = None, h_ttl = None\<rparr>"

definition hash_at :: "store \<Rightarrow> string \<Rightarrow> rhash" where
  "hash_at db k = (case db k of None \<Rightarrow> empty_hash | Some h \<Rightarrow> h)"

text \<open>\<^verbatim>\<open>HGET key tokens\<close> and the two fields of \<^verbatim>\<open>HMGET key tokens last_refill\<close>.\<close>

definition HGET_tokens :: "store \<Rightarrow> string \<Rightarrow> rat option" where
  "HGET_tokens db k = h_tokens (hash_at db k)"

definition HGET_last_refill :: "store \<Rightarrow> string \<Rightarrow> rat option" where
  "HGET_last_refill db k = h_last_refill (hash_at db k)"

text \<open>\<^verbatim>\<open>HMSET key tokens v last_refill w\<close> and \<^verbatim>\<open>HSET key tokens v\<close>.\<close>

definition HMSET :: "store \<Rightarrow> string \<Rightarrow> rat \<Rightarrow> rat \<Rightarrow> store" where
  "HMSET db k v w = db(k \<mapsto> (hash_at db k)\<lparr>h_tokens := Some v, h_last_refill := Some w\<rparr>)"

definition HSET_tokens :: "store \<Rightarrow> string \<Rightarrow> rat \<Rightarrow> store" where
  "HSET_tokens db k v = db(k \<mapsto> (hash_at db k)\<lparr>h_tokens := Some v\<rparr>)"

text \<open>
  \<^verbatim>\<open>EXPIRE key n\<close> with a whole number of seconds: on a missing key it does nothing, a time
  to live that is not positive deletes the key.
\<close>

definition EXPIRE :: "store \<Rightarrow> string \<Rightarrow> int \<Rightarrow> store" where
  "EXPIRE db k n =
     (case db k of
        None \<Rightarrow> db
      | Some h \<Rightarrow> if n \<le> 0 then db(k := None) else db(k \<mapsto> h\<lparr>h_ttl := Some n\<rparr>))"

text \<open>
  \<^verbatim>\<open>math.ceil(capacity / refill_rate) + 1\<close>, for a refill rate other than 0. With a refill
  rate of 0 Lua's quotient is infinite or not a number; \<open>expire_call\<close> below is where the
  scripts meet that case.
\<close>

definition idle_expiry :: "rat \<Rightarrow> rat \<Rightarrow> int" where
  "idle_expiry cap rate = \<lceil>cap / rate\<rceil> + 1"

datatype error = RedisError | ScriptError

text \<open>
  \<^verbatim>\<open>redis.call("EXPIRE", key, math.ceil(capacity / refill_rate) + 1)\<close>, the last call of the
  Allow and the Refill script. With a refill rate of 0 the argument is not a whole number,
  \<^verbatim>\<open>EXPIRE\<close> refuses it and the script ends in an error; what it stored before stays stored.
\<close>

definition expire_call :: "store \<Rightarrow> string \<Rightarrow> rat \<Rightarrow> rat \<Rightarrow> error option \<times> store" where
  "expire_call db k cap rate =
     (if rate = 0 then (Some ScriptError, db)
      else (None, EXPIRE db k (idle_expiry cap rate)))"

text \<open>The natural refill as the Allow and Available scripts compute it.\<close>

definition lua_refill :: "rat \<Rightarrow> rat \<Rightarrow> rat \<Rightarrow> rat \<Rightarrow> rat" where
  "lua_refill cap rate elapsed tks =
     (if tks < cap
      then (let tks1 = tks + elapsed * rate in if tks1 > cap then cap else tks1)
      else tks)"

text \<open>The script of \<^verbatim>\<open>NewTokenBucket\<close>, run by \<^verbatim>\<open>Allow\<close>: refill, consume, store, expire.\<close>

definition allow_script ::
  "string \<Rightarrow> rat \<Rightarrow> rat \<Rightarrow> rat \<Rightarrow> store \<Rightarrow> (error + int) \<times> store" where
  "allow_script k cap rate now db =
     (let tks0 = (case HGET_tokens db k of Some v \<Rightarrow> v | None \<Rightarrow> cap);
          last_refill = (case HGET_last_refill db k of Some v \<Rightarrow> v | None \<Rightarrow> now);
          elapsed = now - last_refill;
          tks = lua_refill cap rate elapsed tks0
      in if tks \<ge> 1
         then (case expire_call (HMSET db k (tks - 1) now) k cap rate of
                 (Some e, db1) \<Rightarrow> (Inl e, db1)
               | (None, db1) \<Rightarrow> (Inr 1, db1))
         else (case expire_call (HMSET db k tks now) k cap rate of
                 (Some e, db1) \<Rightarrow> (Inl e, db1)
               | (None, db1) \<Rightarrow> (Inr 0, db1)))"

text \<open>The script of \<^verbatim>\<open>Refill\<close>; it returns the old and the new count.\<close>

definition refill_script ::
  "string \<Rightarrow> rat \<Rightarrow> rat \<Rightarrow> rat \<Rightarrow> store \<Rightarrow> (error + rat \<times> rat) \<times> store" where
  "refill_script k tokens_to_add cap rate db =
     (let current = (case HGET_tokens db k of Some v \<Rightarrow> v | None \<Rightarrow> cap);
          new_tokens = current + tokens_to_add
      in case expire_call (HSET_tokens db k new_tokens) k cap rate of
           (Some e, db1) \<Rightarrow> (Inl e, db1)
         | (None, db1) \<Rightarrow> (Inr (current, new_tokens), db1))"

text \<open>The script of \<^verbatim>\<open>Available\<close>: it computes the refill and stores nothing.\<close>

definition available_script :: "string \<Rightarrow> rat \<Rightarrow> rat \<Rightarrow> rat \<Rightarrow> store \<Rightarrow> rat" where
  "available_script k cap rate now db =
     (case HGET_tokens db k of
        None \<Rightarrow> cap
      | Some tks \<Rightarrow>
          (case HGET_last_refill db k of
             None \<Rightarrow> tks
           | Some last_refill \<Rightarrow> lua_refill cap rate (now - last_refill) tks))"

text \<open>
  What the Go side adds. The scripts' \<^verbatim>\<open>now\<close> is \<^verbatim>\<open>float64(time.Now().UnixMicro()) / 1e6\<close>: the
  clock reading cut down to whole microseconds. A number that a script returns reaches
  the caller as an integer reply: Redis cuts off its fraction.
\<close>

definition UnixMicro :: "rat \<Rightarrow> int" where
  "UnixMicro t = \<lfloor>t * 1000000\<rfloor>"

definition micro_seconds :: "rat \<Rightarrow> rat" where
  "micro_seconds t = of_int (UnixMicro t) / 1000000"

definition integer_reply :: "rat \<Rightarrow> int" where
  "integer_reply x = (if 0 \<le> x then \<lfloor>x\<rfloor> else \<lceil>x\<rceil>)"

text \<open>
  The Go wrappers. The limiter holds its configuration; the client is the connection
  and the data behind it. A call on a connection that is down returns the client's error
  and changes nothing; a script that ends in an error gives the caller that error.
\<close>

record RedisTokenBucket =
  r_capacity :: rat
  r_refillRate :: rat
  keyPrefix :: string

record client =
  connected :: bool
  rdb :: store

definition NewRedisTokenBucket :: "rat \<Rightarrow> rat \<Rightarrow> string \<Rightarrow> RedisTokenBucket" where
  "NewRedisTokenBucket cap rate prefix =
     \<lparr>r_capacity = cap, r_refillRate = rate,
      keyPrefix = (if prefix = '''' then ''ratelimit:'' else prefix)\<rparr>"

definition redis_Allow ::
  "RedisTokenBucket \<Rightarrow> rat \<Rightarrow> string \<Rightarrow> client \<Rightarrow> (error + bool) \<times> client" where
  "redis_Allow r t key c =
     (if \<not> connected c then (Inl RedisError, c)
      else (let now = micro_seconds t;
                (res, db1) = allow_script (keyPrefix r @ key) (r_capacity r) (r_refillRate r) now (rdb c)
            in (case res of Inl e \<Rightarrow> Inl e | Inr v \<Rightarrow> Inr (v = 1), c\<lparr>rdb := db1\<rparr>)))"

definition redis_Refill ::
  "RedisTokenBucket \<Rightarrow> string \<Rightarrow> rat \<Rightarrow> client \<Rightarrow> error option \<times> client" where
  "redis_Refill r key amount c =
     (if \<not> connected c then (Some RedisError, c)
      else (let (res, db1) = refill_script (keyPrefix r @ key) amount (r_capacity r) (r_refillRate r) (rdb c)
            in (case res of Inl e \<Rightarrow> Some e | Inr v \<Rightarrow> None, c\<lparr>rdb := db1\<rparr>)))"

definition redis_Available ::
  "RedisTokenBucket \<Rightarrow> rat \<Rightarrow> string \<Rightarrow> client \<Rightarrow> (error + rat)" where
  "redis_Available r t key c =
     (if \<not> connected c then Inl RedisError
      else Inr (of_int (integer_reply
             (available_script (keyPrefix r @ key) (r_capacity r) (r_refillRate r)
                (micro_seconds t) (rdb c)))))"

text \<open>A run of \<^verbatim>\<open>Allow\<close> calls on one key of the shared limiter.\<close>

fun redis_Allow_seq ::
  "RedisTokenBucket \<Rightarrow> rat list \<Rightarrow> string \<Rightarrow> client \<Rightarrow> (error + bool) list \<times> client" where
  "redis_Allow_seq r [] key c = ([], c)"
| "redis_Allow_seq r (t # ts) key c =
     (let (b, c1) = redis_Allow r t key c; (bs, c2) = redis_Allow_seq r ts key c1
      in (b # bs, c2))"

section \<open>Runs of limiter operations\<close>

text \<open>
  The operations of the \<^verbatim>\<open>Limiter\<close> interface, each with the clock reading and the client
  key of the call, and what the caller observes of it. \<open>KeyExpires\<close> is not a call: it
  is the moment at which the time to live of the client's key has run out and the server
  deletes the key. The local bucket has no such moment.
\<close>

datatype lop = OpAllow | OpRefill rat | OpAvailable | KeyExpires

datatype lres = ResAllow bool | ResRefill | ResAvailable rat | ResError error | ResNothing

fun mem_step :: "rat \<Rightarrow> string \<Rightarrow> lop \<Rightarrow> TokenBucket \<Rightarrow> lres \<times> TokenBucket" where
  "mem_step now key OpAllow tb = (let (b, tb1) = Allow now key tb in (ResAllow b, tb1))"
| "mem_step now key (OpRefill n) tb = (ResRefill, Refill key n tb)"
| "mem_step now key OpAvailable tb = (let (v, tb1) = Available now tb in (ResAvailable v, tb1))"
| "mem_step now key KeyExpires tb = (ResNothing, tb)"

fun mem_run :: "(rat \<times> string \<times> lop) list \<Rightarrow> TokenBucket \<Rightarrow> lres list \<times> TokenBucket" where
  "mem_run [] tb = ([], tb)"
| "mem_run ((now, key, opn) # rest) tb =
     (let (res, tb1) = mem_step now key opn tb; (ress, tb2) = mem_run rest tb1
      in (res # ress, tb2))"

definition expire_key :: "store \<Rightarrow> string \<Rightarrow> store" where
  "expire_key db k =
     (case db k of
        None \<Rightarrow> db
      | Some h \<Rightarrow> (case h_ttl h of None \<Rightarrow> db | Some n \<Rightarrow> db(k := None)))"

fun red_step :: "RedisTokenBucket \<Rightarrow> rat \<Rightarrow> string \<Rightarrow> lop \<Rightarrow> client \<Rightarrow> lres \<times> client" where
  "red_step r now key OpAllow c =
     (case redis_Allow r now key c of
        (Inl e, c1) \<Rightarrow> (ResError e, c1)
      | (Inr b, c1) \<Rightarrow> (ResAllow b, c1))"
| "red_step r now key (OpRefill n) c =
     (case redis_Refill r key n c of
        (Some e, c1) \<Rightarrow> (ResError e, c1)
      | (None, c1) \<Rightarrow> (ResRefill, c1))"
| "red_step r now key OpAvailable c =
     (case redis_Available r now key c of
        Inl e \<Rightarrow> (ResError e, c)
      | Inr v \<Rightarrow> (ResAvailable v, c))"
| "red_step r now key KeyExpires c =
     (ResNothing, c\<lparr>rdb := expire_key (rdb c) (keyPrefix r @ key)\<rparr>)"




text \<open>
  The stored hash \<open>ho\<close> of a key stands for the local bucket \<open>tb\<close>: refilled by the
  scripts' rule up to the bucket's last refill time, the stored count is the bucket's.
  A hash without \<^verbatim>\<open>last_refill\<close> stands for a bucket at or above capacity.
\<close>

definition stored_tokens :: "rat \<Rightarrow> rhash option \<Rightarrow> rat" where
  "stored_tokens cap ho =
     (case ho of None \<Rightarrow> cap
      | Some h \<Rightarrow> (case h_tokens h of None \<Rightarrow> cap | Some v \<Rightarrow> v))"

definition stored_last :: "rhash option \<Rightarrow> rat option" where
  "stored_last ho = (case ho of None \<Rightarrow> None | Some h \<Rightarrow> h_last_refill h)"

definition bucket_equiv :: "TokenBucket \<Rightarrow> rhash option \<Rightarrow> bool" where
  "bucket_equiv tb ho =
     (case stored_last ho of
        None \<Rightarrow> tokens tb = stored_tokens (capacity tb) ho \<and> capacity tb \<le> tokens tb
      | Some l \<Rightarrow>
          l \<le> lastRefillTime tb \<and>
          tokens tb =
            lua_refill (capacity tb) (refillRate tb) (lastRefillTime tb - l)
              (stored_tokens (capacity tb) ho))"


text \<open>The coupling of a local bucket with a key of the shared limiter that the runs keep.\<close>

definition coupled :: "RedisTokenBucket \<Rightarrow> string \<Rightarrow> bool \<Rightarrow> TokenBucket \<Rightarrow> client \<Rightarrow> bool" where
  "coupled r key sampled tb c =
     (connected c \<and> r_capacity r = capacity tb \<and> r_refillRate r = refillRate tb \<and>
      0 \<le> capacity tb \<and> 0 < refillRate tb \<and>
      bucket_equiv tb (rdb c (keyPrefix r @ key)) \<and>
      (sampled \<or> tokens tb = stored_tokens (capacity tb) (rdb c (keyPrefix r @ key))))"

section \<open>The trust tracker (package trust)\<close>

text \<open>
  A \<^verbatim>\<open>time.Time\<close> of the tracker and of the settlement queue is an integer number of
  nanoseconds on the process's monotonic clock, a \<^verbatim>\<open>time.Duration\<close> an integer number of
  nanoseconds. \<^verbatim>\<open>ts.After(cutoff)\<close> is \<open>cutoff < ts\<close>.
\<close>

record Config =
  Threshold :: int
  Window :: int

record Tracker =
  payments :: "string \<rightharpoonup> int list"
  config :: Config

definition Hour :: int where
  "Hour = 3600 * 1000000000"

definition New :: "Config \<Rightarrow> Tracker" where
  "New cfg =
     (let cfg1 = (if Threshold cfg \<le> 0 then cfg\<lparr>Threshold := 3\<rparr> else cfg);
          cfg2 = (if Window cfg1 \<le> 0 then cfg1\<lparr>Window := Hour\<rparr> else cfg1)
      in \<lparr>payments = Map.empty, config = cfg2\<rparr>)"

text \<open>\<^verbatim>\<open>t.payments[wallet]\<close>: the nil slice for a wallet that is not in the map.\<close>

definition payments_of :: "Tracker \<Rightarrow> string \<Rightarrow> int list" where
  "payments_of t wallet = (case payments t wallet of None \<Rightarrow> [] | Some tss \<Rightarrow> tss)"

definition countRecent :: "Tracker \<Rightarrow> int \<Rightarrow> string \<Rightarrow> int" where
  "countRecent t now wallet =
     (let cutoff = now - Window (config t)
      in int (length (filter (\<lambda>ts. cutoff < ts) (payments_of t wallet))))"

definition IsTrusted :: "Tracker \<Rightarrow> int \<Rightarrow> string \<Rightarrow> bool" where
  "IsTrusted t now wallet = (countRecent t now wallet \<ge> Threshold (config t))"

definition RecentPayments :: "Tracker \<Rightarrow> int \<Rightarrow> string \<Rightarrow> int" where
  "RecentPayments t now wallet = countRecent t now wallet"

definition cleanup :: "Tracker \<Rightarrow> int \<Rightarrow> string \<Rightarrow> Tracker" where
  "cleanup t now wallet =
     (let cutoff = now - Window (config t);
          kept = filter (\<lambda>ts. cutoff < ts) (payments_of t wallet)
      in t\<lparr>payments := (payments t)(wallet \<mapsto> kept)\<rparr>)"

text \<open>
  \<^verbatim>\<open>RecordSuccess\<close> reads the clock twice: for the timestamp it appends, and in \<^verbatim>\<open>cleanup\<close>.
\<close>

definition RecordSuccess :: "Tracker \<Rightarrow> int \<Rightarrow> int \<Rightarrow> string \<Rightarrow> Tracker" where
  "RecordSuccess t now now' wallet =
     cleanup (t\<lparr>payments := (payments t)(wallet \<mapsto> payments_of t wallet @ [now])\<rparr>) now' wallet"

definition RecordFailure :: "Tracker \<Rightarrow> string \<Rightarrow> Tracker" where
  "RecordFailure t wallet = t\<lparr>payments := (payments t)(wallet := None)\<rparr>"

text \<open>
  A history of recording calls, and the successes a wallet has on record after it, in
  the specification's words: every success since the wallet's last failure, pruned or not.
\<close>

datatype tracker_event = EvSuccess string int int | EvFailure string

fun track :: "tracker_event \<Rightarrow> Tracker \<Rightarrow> Tracker" where
  "track (EvSuccess wallet now now') t = RecordSuccess t now now' wallet"
| "track (EvFailure wallet) t = RecordFailure t wallet"

fun track_all :: "tracker_event list \<Rightarrow> Tracker \<Rightarrow> Tracker" where
  "track_all [] t = t"
| "track_all (e # es) t = track_all es (track e t)"

fun recorded :: "int list \<Rightarrow> tracker_event list \<Rightarrow> string \<Rightarrow> int list" where
  "recorded acc [] wallet = acc"
| "recorded acc (EvSuccess w now now' # es) wallet =
     recorded (if w = wallet then acc @ [now] else acc) es wallet"
| "recorded acc (EvFailure w # es) wallet =
     recorded (if w = wallet then [] else acc) es wallet"

fun readings :: "tracker_event list \<Rightarrow> int list" where
  "readings [] = []"
| "readings (EvSuccess w now now' # es) = now # now' # readings es"
| "readings (EvFailure w # es) = readings es"

section \<open>The settlement queue (cmd/server/settlement\_queue.go)\<close>

text \<open>
  The payment payload and the payment requirements belong to the x402 library and are
  opaque here. The result of the library's \<^verbatim>\<open>ProcessSettlement\<close> is an input of the model.
\<close>

type_synonym PaymentPayload = string
type_synonym PaymentRequirements = string

record SettlementJob =
  PaymentPayload :: PaymentPayload
  PaymentRequirements :: PaymentRequirements
  WalletAddr :: string
  QueuedAt :: int

record SettleResult =
  Success :: bool
  Transaction :: string
  ErrorReason :: string

text \<open>
  The queue: the contents of the buffered channel \<^verbatim>\<open>jobs\<close>, oldest first, its buffer size,
  and the counter \<^verbatim>\<open>pending\<close>. The state of the one worker goroutine is kept beside it:
  its local \<^verbatim>\<open>first\<close>, its clock, and two history variables, the jobs the channel has
  accepted (\<open>sent\<close>) and the settlements made (\<open>settled\<close>: the job, the time slept before
  it, and the times at which \<^verbatim>\<open>processSettlement\<close> was entered and left).
\<close>

record SettlementQueue =
  jobs :: "SettlementJob list"
  bufferSize :: nat
  pending :: int
  first :: bool
  wclock :: int
  sent :: "SettlementJob list"
  settled :: "(SettlementJob \<times> int \<times> int \<times> int) list"

definition NewSettlementQueue :: "int \<Rightarrow> int \<Rightarrow> SettlementQueue" where
  "NewSettlementQueue bufferSize0 now =
     \<lparr>jobs = [], bufferSize = nat (if bufferSize0 \<le> 0 then 100 else bufferSize0),
      pending = 0, first = True, wclock = now, sent = [], settled = []\<rparr>"

text \<open>
  \<^verbatim>\<open>Enqueue\<close>: the counter is incremented, the job stamped and sent. On a full channel the
  send blocks: the result \<open>False\<close> is the caller waiting at the send, the counter
  already incremented.
\<close>

definition Enqueue :: "int \<Rightarrow> SettlementJob \<Rightarrow> SettlementQueue \<Rightarrow> bool \<times> SettlementQueue" where
  "Enqueue now job sq =
     (let sq1 = sq\<lparr>pending := pending sq + 1\<rparr>;
          job1 = job\<lparr>QueuedAt := now\<rparr>
      in if length (jobs sq1) < bufferSize sq1
         then (True, sq1\<lparr>jobs := jobs sq1 @ [job1], sent := sent sq1 @ [job1]\<rparr>)
         else (False, sq1))"

definition Pending :: "SettlementQueue \<Rightarrow> int" where
  "Pending sq = pending sq"

definition settle_delay :: int where
  "settle_delay = 3 * 1000000000"

text \<open>
  \<^verbatim>\<open>processSettlement\<close>: the tracker, when there is one, records the success or the
  failure of the settlement.
\<close>

definition processSettlement ::
  "SettleResult \<Rightarrow> int \<Rightarrow> int \<Rightarrow> SettlementJob \<Rightarrow> Tracker option \<Rightarrow> Tracker option" where
  "processSettlement settleResult now now' job trustTracker =
     (if Success settleResult
      then (case trustTracker of None \<Rightarrow> None
            | Some t \<Rightarrow> Some (RecordSuccess t now now' (WalletAddr job)))
      else (case trustTracker of None \<Rightarrow> None
            | Some t \<Rightarrow> Some (RecordFailure t (WalletAddr job))))"

text \<open>
  One turn of the loop of \<^verbatim>\<open>worker\<close>. What the worker cannot decide is an input: how long
  it waited for the job (\<open>idle\<close>), by how much \<^verbatim>\<open>time.Sleep\<close> overslept (\<open>extra\<close>; Go
  promises a sleep of at least the duration asked), how long the settlement took
  (\<open>took\<close>) and how it ended; the bookkeeping after the settlement takes no time. On an
  empty channel the worker waits and nothing changes.
\<close>

record turn =
  idle :: nat
  extra :: nat
  took :: nat
  outcome :: SettleResult

definition worker_turn ::
  "turn \<Rightarrow> SettlementQueue \<times> Tracker option \<Rightarrow> SettlementQueue \<times> Tracker option" where
  "worker_turn tn st =
     (case jobs (fst st) of
        [] \<Rightarrow> st
      | job # rest \<Rightarrow>
          (let sq = fst st;
               received = wclock sq + int (idle tn);
               slept = (if \<not> first sq then settle_delay + int (extra tn) else 0);
               entered = received + slept;
               left = entered + int (took tn);
               tr = processSettlement (outcome tn) left left job (snd st)
           in (sq\<lparr>jobs := rest, first := False, wclock := left,
                  pending := pending sq - 1,
                  settled := settled sq @ [(job, slept, entered, left)]\<rparr>, tr)))"

text \<open>
  Request handlers enqueueing and the worker taking turns, in any interleaving. A send on
  a full channel is not enabled: at that point of the interleaving nothing happens.
\<close>

datatype queue_event = Produce int SettlementJob | Consume turn

fun queue_step ::
  "queue_event \<Rightarrow> SettlementQueue \<times> Tracker option \<Rightarrow> SettlementQueue \<times> Tracker option" where
  "queue_step (Produce now job) st =
     (case Enqueue now job (fst st) of (True, sq1) \<Rightarrow> (sq1, snd st) | (False, sq1) \<Rightarrow> st)"
| "queue_step (Consume tn) st = worker_turn tn st"

fun queue_run ::
  "queue_event list \<Rightarrow> SettlementQueue \<times> Tracker option \<Rightarrow> SettlementQueue \<times> Tracker option" where
  "queue_run [] st = st"
| "queue_run (e # es) st = queue_run es (queue_step e st)"

text \<open>Successive settlements are apart by the delay: left, then entered no sooner than 3 s later.\<close>

fun spaced :: "(SettlementJob \<times> int \<times> int \<times> int) list \<Rightarrow> bool" where
  "spaced [] = True"
| "spaced [x] = True"
| "spaced ((j, s, e, l) # (j', s', e', l') # rest) =
     (l + settle_delay \<le> e' \<and> spaced ((j', s', e', l') # rest))"

text \<open>
  What the claims about the worker say of a run: the settlements made, followed by the
  jobs still in the channel, are the jobs the channel accepted, in that order; successive
  settlements are spaced; the first slept nothing and every later one at least the delay.
\<close>

definition slept_of :: "SettlementJob \<times> int \<times> int \<times> int \<Rightarrow> int" where
  "slept_of x = fst (snd x)"

definition left_of :: "SettlementJob \<times> int \<times> int \<times> int \<Rightarrow> int" where
  "left_of x = snd (snd (snd x))"

definition delays_kept :: "(SettlementJob \<times> int \<times> int \<times> int) list \<Rightarrow> bool" where
  "delays_kept xs =
     (case map slept_of xs of
        [] \<Rightarrow> True
      | s0 # ss \<Rightarrow> s0 = 0 \<and> list_all (\<lambda>s. settle_delay \<le> s) ss)"

definition worker_inv :: "SettlementQueue \<Rightarrow> bool" where
  "worker_inv sq =
     (map fst (settled sq) @ jobs sq = sent sq \<and>
      spaced (settled sq) \<and>
      delays_kept (settled sq) \<and>
      (first sq \<longleftrightarrow> settled sq = []) \<and>
      (settled sq = [] \<or> left_of (last (settled sq)) = wclock sq))"

definition entered_of :: "SettlementJob \<times> int \<times> int \<times> int \<Rightarrow> int" where
  "entered_of x = fst (snd (snd x))"

section \<open>The admission pipeline (cmd/server/main.go)\<close>

text \<open>
  \<^verbatim>\<open>extractWalletAddress\<close>. The decoders of \<^verbatim>\<open>encoding/base64\<close>, \<^verbatim>\<open>json.Unmarshal\<close> and
  \<^verbatim>\<open>strings.ToLower\<close> are library code and are parameters; a decoder returns \<open>None\<close> for its
  error. \<open>unmarshal_from\<close> is \<^verbatim>\<open>json.Unmarshal\<close> into the struct of the function, read at
  \<^verbatim>\<open>Payload.Authorization.From\<close>; Go leaves that field empty when the document does not have
  it.
\<close>

record codec =
  StdEncoding_DecodeString :: "string \<Rightarrow> string option"
  URLEncoding_DecodeString :: "string \<Rightarrow> string option"
  unmarshal_from :: "string \<Rightarrow> string option"
  strings_ToLower :: "string \<Rightarrow> string"

definition extractWalletAddress :: "codec \<Rightarrow> string \<Rightarrow> string" where
  "extractWalletAddress lib paymentHeader =
     (if paymentHeader = '''' then ''''
      else (case (case StdEncoding_DecodeString lib paymentHeader of
                    Some decoded \<Rightarrow> Some decoded
                  | None \<Rightarrow> URLEncoding_DecodeString lib paymentHeader) of
              None \<Rightarrow> ''''
            | Some decoded \<Rightarrow>
                (case unmarshal_from lib decoded of
                   None \<Rightarrow> ''''
                 | Some from_field \<Rightarrow> strings_ToLower lib from_field)))"

text \<open>The limiter behind the \<^verbatim>\<open>ratelimit.Limiter\<close> interface, as \<^verbatim>\<open>main\<close> chooses it.\<close>

datatype limiter = Local TokenBucket | Shared RedisTokenBucket client

fun limiter_Allow :: "rat \<Rightarrow> string \<Rightarrow> limiter \<Rightarrow> (error + bool) \<times> limiter" where
  "limiter_Allow now key (Local tb) = (let (b, tb1) = Allow now key tb in (Inr b, Local tb1))"
| "limiter_Allow now key (Shared r c) =
     (let (res, c1) = redis_Allow r now key c in (res, Shared r c1))"

fun limiter_Refill :: "string \<Rightarrow> rat \<Rightarrow> limiter \<Rightarrow> error option \<times> limiter" where
  "limiter_Refill key amount (Local tb) = (None, Local (Refill key amount tb))"
| "limiter_Refill key amount (Shared r c) =
     (let (res, c1) = redis_Refill r key amount c in (res, Shared r c1))"

text \<open>
  Whether the connection to Redis is up when a call is made is an input of the call; the
  local limiter has no connection.
\<close>

fun with_link :: "bool \<Rightarrow> limiter \<Rightarrow> limiter" where
  "with_link up (Local tb) = Local tb"
| "with_link up (Shared r c) = Shared r (c\<lparr>connected := up\<rparr>)"

text \<open>
  What the x402 server answers is an input: \<^verbatim>\<open>ProcessHTTPRequest\<close> as a function of the payment
  header (a verified payment with its payload and requirements, or another result with the
  response to send, if any), \<^verbatim>\<open>ProcessSettlement\<close> as a function of payload and requirements.
  So is every reading of the clock, and the state of the connection at the two calls of the
  limiter.
\<close>

datatype HTTPProcessResult =
    ResultPaymentVerified PaymentPayload PaymentRequirements
  | ResultOther "(int \<times> string) option"

record environment =
  ProcessHTTPRequest :: "string \<Rightarrow> HTTPProcessResult"
  ProcessSettlement :: "PaymentPayload \<Rightarrow> PaymentRequirements \<Rightarrow> SettleResult"
  lib :: codec
  at_Allow :: rat
  link_at_Allow :: bool
  link_at_Refill :: bool
  at_IsTrusted :: int
  at_Enqueue :: int
  at_RecordSuccess :: int
  at_cleanup :: int

record request =
  ClientIP :: string
  PAYMENT_SIGNATURE :: string
  X_PAYMENT :: string

record server =
  the_limiter :: limiter
  cfg_capacity :: rat
  trustTracker :: "Tracker option"
  settlementQueue :: "SettlementQueue option"

text \<open>
  \<^verbatim>\<open>trustTracker != nil && settlementQueue != nil && trustTracker.IsTrusted(walletAddr)\<close>, and
  the queue that the branch it guards enqueues on (the queue is there whenever the guard
  holds).
\<close>

definition optimistic :: "server \<Rightarrow> int \<Rightarrow> string \<Rightarrow> bool" where
  "optimistic s now walletAddr =
     (case trustTracker s of
        None \<Rightarrow> False
      | Some t \<Rightarrow>
          (case settlementQueue s of
             None \<Rightarrow> False
           | Some sq \<Rightarrow> IsTrusted t now walletAddr))"

definition queue_of :: "server \<Rightarrow> SettlementQueue" where
  "queue_of s =
     (case settlementQueue s of Some sq \<Rightarrow> sq | None \<Rightarrow> NewSettlementQueue 100 0)"

text \<open>
  What the middleware does with the request: hands it to the next handler, aborts with a
  JSON body of its own, aborts with the response of the x402 server, or waits in \<^verbatim>\<open>Enqueue\<close>.
\<close>

datatype reply =
    Next
  | AbortJSON int "(string \<times> string) list"
  | AbortWith int string
  | WaitingInEnqueue

definition hybridRateLimitPaymentMiddleware ::
  "environment \<Rightarrow> request \<Rightarrow> server \<Rightarrow> reply \<times> server" where
  "hybridRateLimitPaymentMiddleware env req s =
     (let key = ClientIP req
      in case limiter_Allow (at_Allow env) key (with_link (link_at_Allow env) (the_limiter s)) of
           (Inl err, lim1) \<Rightarrow>
             (AbortJSON 500 [(''error'', ''Rate limiter error'')], s\<lparr>the_limiter := lim1\<rparr>)
         | (Inr True, lim1) \<Rightarrow> (Next, s\<lparr>the_limiter := lim1\<rparr>)
         | (Inr False, lim1) \<Rightarrow>
             (let s1 = s\<lparr>the_limiter := lim1\<rparr>;
                  paymentHeader =
                    (if PAYMENT_SIGNATURE req = '''' then X_PAYMENT req else PAYMENT_SIGNATURE req);
                  result = ProcessHTTPRequest env paymentHeader;
                  response = (case result of ResultOther resp \<Rightarrow> resp
                              | ResultPaymentVerified payload reqs \<Rightarrow> None)
              in if paymentHeader = ''''
                 then (case response of
                         Some (status, body) \<Rightarrow> (AbortWith status body, s1)
                       | None \<Rightarrow>
                           (AbortJSON 402
                              [(''error'', ''Payment Required''),
                               (''message'', ''Rate limit exceeded. Pay to refill your quota.'')], s1))
                 else (case result of
                         ResultPaymentVerified payload reqs \<Rightarrow>
                           (let walletAddr = extractWalletAddress (lib env) paymentHeader
                            in if optimistic s1 (at_IsTrusted env) walletAddr
                               then (case limiter_Refill key (cfg_capacity s1)
                                             (with_link (link_at_Refill env) lim1) of
                                       (Some err, lim2) \<Rightarrow>
                                         (AbortJSON 500 [(''error'', ''Refill error'')],
                                          s1\<lparr>the_limiter := lim2\<rparr>)
                                     | (None, lim2) \<Rightarrow>
                                         (let (gone, sq1) =
                                                Enqueue (at_Enqueue env)
                                                  \<lparr>PaymentPayload = payload,
                                                   PaymentRequirements = reqs,
                                                   WalletAddr = walletAddr, QueuedAt = 0\<rparr>
                                                  (queue_of s1)
                                          in (if gone then Next else WaitingInEnqueue,
                                              s1\<lparr>the_limiter := lim2, settlementQueue := Some sq1\<rparr>)))
                               else (let settleResult = ProcessSettlement env payload reqs
                                     in if Success settleResult
                                        then (case limiter_Refill key (cfg_capacity s1)
                                             (with_link (link_at_Refill env) lim1) of
                                                (Some err, lim2) \<Rightarrow>
                                                  (AbortJSON 500 [(''error'', ''Refill error'')],
                                                   s1\<lparr>the_limiter := lim2\<rparr>)
                                              | (None, lim2) \<Rightarrow>
                                                  (Next,
                                                   s1\<lparr>the_limiter := lim2,
                                                      trustTracker :=
                                                        (case trustTracker s1 of None \<Rightarrow> None
                                                         | Some t \<Rightarrow>
                                                             Some (RecordSuccess t (at_RecordSuccess env)
                                                                     (at_cleanup env) walletAddr))\<rparr>))
                                        else (AbortJSON 402
                                                [(''error'', ''Settlement failed''),
                                                 (''reason'', ErrorReason settleResult)], s1)))
                       | ResultOther resp \<Rightarrow>
                           (case resp of
                              Some (status, body) \<Rightarrow> (AbortWith status body, s1)
                            | None \<Rightarrow>
                                (AbortJSON 402
                                   [(''error'', ''Payment Required''),
                                    (''message'', ''Invalid payment or rate limit exceeded.'')], s1)))))"

text \<open>Requests served one after the other, each with its own environment.\<close>

fun serve :: "(environment \<times> request) list \<Rightarrow> server \<Rightarrow> reply list \<times> server" where
  "serve [] s = ([], s)"
| "serve ((env, req) # rest) s =
     (let (rep, s1) = hybridRateLimitPaymentMiddleware env req s;
          (reps, s2) = serve rest s1
      in (rep # reps, s2))"

text \<open>The header the middleware reads: \<^verbatim>\<open>PAYMENT-SIGNATURE\<close>, else \<^verbatim>\<open>X-PAYMENT\<close>.\<close>

definition payment_header :: "request \<Rightarrow> string" where
  "payment_header req =
     (if PAYMENT_SIGNATURE req = '''' then X_PAYMENT req else PAYMENT_SIGNATURE req)"


section \<open>Facts about the two limiters\<close>

lemma refill_fields:
  "capacity (refill now tb) = capacity tb"
  "refillRate (refill now tb) = refillRate tb"
  "lastRefillTime (refill now tb) = now"
  by (simp_all add: refill_def Let_def)

lemma refill_lua:
  "tokens (refill now tb) =
     lua_refill (capacity tb) (refillRate tb) (now - lastRefillTime tb) (tokens tb)"
  by (simp add: refill_def lua_refill_def Let_def)

lemma lua_refill_min:
  "lua_refill cap rate d s = (if s < cap then min cap (s + d * rate) else s)"
  by (simp add: lua_refill_def Let_def min_def)

lemma lua_refill_compose:
  assumes "0 \<le> a" "0 \<le> b" "0 \<le> rate"
  shows "lua_refill cap rate b (lua_refill cap rate a s) = lua_refill cap rate (a + b) s"
proof -
  have A: "0 \<le> a * rate" and B: "0 \<le> b * rate" using assms by simp_all
  have C: "(a + b) * rate = a * rate + b * rate" by (simp add: algebra_simps)
  show ?thesis using A B unfolding lua_refill_min C by (auto simp: min_def)
qed

lemma lua_refill_zero: "lua_refill cap rate 0 s = s"
  by (simp add: lua_refill_min)

lemma lua_refill_full: "cap \<le> s \<Longrightarrow> lua_refill cap rate d s = s"
  by (simp add: lua_refill_min)


lemma idle_expiry_pos: "0 \<le> cap \<Longrightarrow> 0 < rate \<Longrightarrow> 0 < idle_expiry cap rate"
proof -
  assume "0 \<le> cap" "0 < rate"
  then have "0 \<le> cap / rate" by simp
  then have "0 \<le> \<lceil>cap / rate\<rceil>" by (simp add: ceiling_le_iff)
  then show ?thesis by (simp add: idle_expiry_def)
qed

lemma expire_call_kept:
  "rate \<noteq> 0 \<Longrightarrow> 0 < idle_expiry cap rate \<Longrightarrow> db k = Some h \<Longrightarrow>
   expire_call db k cap rate = (None, db(k \<mapsto> h\<lparr>h_ttl := Some (idle_expiry cap rate)\<rparr>))"
  by (simp add: expire_call_def EXPIRE_def)

lemma expire_call_zero: "expire_call db k cap 0 = (Some ScriptError, db)"
  by (simp add: expire_call_def)

lemma allow_script_result:
  "rate \<noteq> 0 \<Longrightarrow>
   fst (allow_script k cap rate now db) =
     Inr (if 1 \<le> lua_refill cap rate
            (now - (case stored_last (db k) of Some v \<Rightarrow> v | None \<Rightarrow> now))
            (stored_tokens cap (db k))
      then 1 else 0)"
  by (simp add: allow_script_def Let_def HGET_tokens_def HGET_last_refill_def hash_at_def
      empty_hash_def stored_tokens_def stored_last_def expire_call_def split: option.splits)

lemma allow_script_store:
  "rate \<noteq> 0 \<Longrightarrow> 0 < idle_expiry cap rate \<Longrightarrow>
   snd (allow_script k cap rate now db) =
     db(k \<mapsto> (hash_at db k)
       \<lparr>h_tokens := Some (let tks = lua_refill cap rate
            (now - (case stored_last (db k) of Some v \<Rightarrow> v | None \<Rightarrow> now))
            (stored_tokens cap (db k)) in if 1 \<le> tks then tks - 1 else tks),
        h_last_refill := Some now,
        h_ttl := Some (idle_expiry cap rate)\<rparr>)"
  by (simp add: allow_script_def Let_def HGET_tokens_def HGET_last_refill_def hash_at_def
      empty_hash_def stored_tokens_def stored_last_def HMSET_def EXPIRE_def expire_call_def
      split: option.splits)

lemma refill_script_result:
  "rate \<noteq> 0 \<Longrightarrow>
   fst (refill_script k n cap rate db) = Inr (stored_tokens cap (db k), stored_tokens cap (db k) + n)"
  by (simp add: refill_script_def Let_def HGET_tokens_def hash_at_def
      empty_hash_def stored_tokens_def expire_call_def split: option.splits)

lemma refill_script_store:
  "rate \<noteq> 0 \<Longrightarrow> 0 < idle_expiry cap rate \<Longrightarrow>
   snd (refill_script k n cap rate db) =
     db(k \<mapsto> (hash_at db k)
       \<lparr>h_tokens := Some (stored_tokens cap (db k) + n),
        h_ttl := Some (idle_expiry cap rate)\<rparr>)"
  by (simp add: refill_script_def Let_def HGET_tokens_def hash_at_def
      empty_hash_def stored_tokens_def HSET_tokens_def EXPIRE_def expire_call_def
      split: option.splits)



lemma allow_script_stored:
  assumes "rate \<noteq> 0" "0 < idle_expiry cap rate"
  shows "stored_tokens cap' (snd (allow_script k cap rate now db) k) =
     (let tks = lua_refill cap rate
            (now - (case stored_last (db k) of Some v \<Rightarrow> v | None \<Rightarrow> now))
            (stored_tokens cap (db k)) in if 1 \<le> tks then tks - 1 else tks)"
    and "stored_last (snd (allow_script k cap rate now db) k) = Some now"
  using assms
  by (simp_all add: allow_script_store stored_tokens_def stored_last_def)


lemma micro_seconds_mono: "s \<le> t \<Longrightarrow> micro_seconds s \<le> micro_seconds t"
  unfolding micro_seconds_def UnixMicro_def
  by (intro divide_right_mono) (simp_all add: floor_mono)



lemma micro_seconds_whole: "micro_seconds (of_int n / 1000000) = of_int n / 1000000"
  by (simp add: micro_seconds_def UnixMicro_def)

lemma equiv_refill:
  assumes "bucket_equiv tb ho" "stored_last ho \<noteq> None \<longrightarrow> lastRefillTime tb \<le> now"
    "0 \<le> refillRate tb"
  shows "lua_refill (capacity tb) (refillRate tb)
           (now - (case stored_last ho of Some v \<Rightarrow> v | None \<Rightarrow> now))
           (stored_tokens (capacity tb) ho) = tokens (refill now tb)"
proof (cases "stored_last ho")
  case None
  then show ?thesis using assms(1)
    by (simp add: bucket_equiv_def refill_lua lua_refill_full)
next
  case (Some l)
  then have l: "l \<le> lastRefillTime tb"
    and t: "tokens tb = lua_refill (capacity tb) (refillRate tb) (lastRefillTime tb - l)
              (stored_tokens (capacity tb) ho)"
    using assms(1) by (simp_all add: bucket_equiv_def)
  have le: "lastRefillTime tb \<le> now" using Some assms(2) by simp
  have "tokens (refill now tb) =
          lua_refill (capacity tb) (refillRate tb) ((lastRefillTime tb - l) + (now - lastRefillTime tb))
            (stored_tokens (capacity tb) ho)"
    unfolding refill_lua using l le assms(3)
    by (subst t) (simp add: lua_refill_compose)
  then show ?thesis using Some by simp
qed

lemma coupled_facts:
  assumes "coupled r key sampled tb c"
  shows "connected c" "r_capacity r = capacity tb" "r_refillRate r = refillRate tb"
    "0 \<le> refillRate tb" "bucket_equiv tb (rdb c (keyPrefix r @ key))"
    "refillRate tb \<noteq> 0" "0 < idle_expiry (capacity tb) (refillRate tb)"
  using assms by (simp_all add: coupled_def idle_expiry_pos)

lemma redis_Allow_connected:
  assumes "connected c" "r_refillRate r \<noteq> 0"
  shows "redis_Allow r t key c =
     (Inr (1 \<le> lua_refill (r_capacity r) (r_refillRate r)
                    (micro_seconds t -
                       (case stored_last (rdb c (keyPrefix r @ key)) of
                          Some v \<Rightarrow> v | None \<Rightarrow> micro_seconds t))
                    (stored_tokens (r_capacity r) (rdb c (keyPrefix r @ key)))),
      c\<lparr>rdb := snd (allow_script (keyPrefix r @ key) (r_capacity r) (r_refillRate r)
                      (micro_seconds t) (rdb c))\<rparr>)"
proof -
  obtain res db1 where s: "allow_script (keyPrefix r @ key) (r_capacity r) (r_refillRate r)
                      (micro_seconds t) (rdb c) = (res, db1)" by (cases "allow_script (keyPrefix r @ key) (r_capacity r) (r_refillRate r)
                      (micro_seconds t) (rdb c)") auto
  from allow_script_result[OF assms(2), of "keyPrefix r @ key" "r_capacity r" "micro_seconds t" "rdb c"]
  show ?thesis using assms(1) unfolding redis_Allow_def Let_def s by (simp split: if_splits)
qed

lemma redis_Refill_connected:
  assumes "connected c" "r_refillRate r \<noteq> 0"
  shows "redis_Refill r key n c =
     (None, c\<lparr>rdb := snd (refill_script (keyPrefix r @ key) n (r_capacity r) (r_refillRate r) (rdb c))\<rparr>)"
proof -
  obtain res db1 where s: "refill_script (keyPrefix r @ key) n (r_capacity r) (r_refillRate r) (rdb c) = (res, db1)"
    by (cases "refill_script (keyPrefix r @ key) n (r_capacity r) (r_refillRate r) (rdb c)") auto
  from refill_script_result[OF assms(2), of "keyPrefix r @ key" n "r_capacity r" "rdb c"]
  show ?thesis using assms(1) unfolding redis_Refill_def Let_def s by simp
qed

lemma coupled_Allow:
  assumes "coupled r key sampled tb c"
    and "stored_last (rdb c (keyPrefix r @ key)) \<noteq> None \<longrightarrow> lastRefillTime tb \<le> micro_seconds t"
  shows "fst (red_step r t key OpAllow c) = fst (mem_step (micro_seconds t) key OpAllow tb)"
    and "coupled r key False (snd (mem_step (micro_seconds t) key OpAllow tb))
           (snd (red_step r t key OpAllow c))"
    and "stored_last (rdb (snd (red_step r t key OpAllow c)) (keyPrefix r @ key)) =
           Some (micro_seconds t)"
proof -
  let ?k = "keyPrefix r @ key"
  let ?now = "micro_seconds t"
  note c = coupled_facts[OF assms(1)]
  note e = equiv_refill[OF c(5) assms(2) c(4)]
  have nz: "r_refillRate r \<noteq> 0" using c(3,6) by simp
  have step: "red_step r t key OpAllow c =
     (ResAllow (1 \<le> tokens (refill ?now tb)),
      c\<lparr>rdb := snd (allow_script ?k (capacity tb) (refillRate tb) ?now (rdb c))\<rparr>)"
    unfolding red_step.simps redis_Allow_connected[OF c(1) nz] c(2,3) e by simp
  show "fst (red_step r t key OpAllow c) = fst (mem_step ?now key OpAllow tb)"
    unfolding step by (simp add: Allow_def Let_def)
  show "coupled r key False (snd (mem_step ?now key OpAllow tb)) (snd (red_step r t key OpAllow c))"
    unfolding step using c(1,4) e assms(1)
    by (simp add: coupled_def allow_script_stored[OF c(6,7)] c(2,3)
        Allow_def Let_def refill_fields bucket_equiv_def lua_refill_zero)
  show "stored_last (rdb (snd (red_step r t key OpAllow c)) ?k) = Some ?now"
    unfolding step using allow_script_stored(2)[OF c(6,7), of ?k ?now "rdb c"] by simp
qed








lemma refill_tokens:
  "tokens (refill now tb) =
     (if tokens tb < capacity tb
      then min (capacity tb) (tokens tb + (now - lastRefillTime tb) * refillRate tb)
      else tokens tb)"
  by (simp add: refill_def Let_def min_def)

lemma Allow_fields:
  "capacity (snd (Allow now key tb)) = capacity tb"
  "refillRate (snd (Allow now key tb)) = refillRate tb"
  "lastRefillTime (snd (Allow now key tb)) = now"
  by (simp_all add: Allow_def Let_def refill_fields)

lemma Allow_result: "fst (Allow now key tb) \<longleftrightarrow> 1 \<le> tokens (refill now tb)"
  by (simp add: Allow_def Let_def)

lemma Allow_tokens:
  "tokens (snd (Allow now key tb)) =
     tokens (refill now tb) - (if fst (Allow now key tb) then 1 else 0)"
  by (simp add: Allow_def Let_def)

lemma Allow_seq_Cons:
  "fst (Allow_seq (t # ts) key tb) =
     fst (Allow t key tb) # fst (Allow_seq ts key (snd (Allow t key tb)))"
  by (simp add: split_beta Let_def)

lemma of_nat_succ_le: "m < c \<Longrightarrow> (of_nat m + 1 :: rat) \<le> of_nat c"
proof -
  assume "m < c"
  then have "Suc m \<le> c" by simp
  then have "(of_nat (Suc m) :: rat) \<le> of_nat c" by (simp only: of_nat_le_iff)
  then show ?thesis by (simp add: add.commute)
qed

lemma drain:
  assumes "capacity tb = of_nat c" and "m < c"
    and "tokens tb = of_nat m + (lastRefillTime tb - t1) * refillRate tb"
    and "0 \<le> refillRate tb" and "t1 \<le> lastRefillTime tb"
    and "sorted (lastRefillTime tb # ts)"
    and "\<forall>t\<in>set ts. (t - t1) * refillRate tb < 1"
  shows "fst (Allow_seq ts key tb) =
           replicate (min m (length ts)) True @ replicate (length ts - m) False"
  using assms
proof (induction ts arbitrary: tb m)
  case Nil
  then show ?case by simp
next
  case (Cons t ts)
  let ?r = "refillRate tb"
  let ?tb1 = "snd (Allow t key tb)"
  have le: "lastRefillTime tb \<le> t" using Cons.prems(6) by simp
  have lt1: "(t - t1) * ?r < 1" using Cons.prems(7) by simp
  have ge0: "0 \<le> (t - t1) * ?r" using Cons.prems(4,5) le by simp
  have below: "tokens tb < capacity tb"
  proof -
    have "(lastRefillTime tb - t1) * ?r \<le> (t - t1) * ?r"
      using le Cons.prems(4) by (simp add: mult_right_mono)
    then have "tokens tb < of_nat m + 1" using Cons.prems(3) lt1 by simp
    also have "\<dots> \<le> of_nat c" using Cons.prems(2) by (rule of_nat_succ_le)
    finally show ?thesis using Cons.prems(1) by simp
  qed
  have sum: "tokens tb + (t - lastRefillTime tb) * ?r = of_nat m + (t - t1) * ?r"
    using Cons.prems(3) by (simp add: algebra_simps)
  have "of_nat m + (t - t1) * ?r < of_nat m + 1" using lt1 by simp
  also have "(of_nat m + 1 :: rat) \<le> of_nat c" using Cons.prems(2) by (rule of_nat_succ_le)
  finally have cap_ok: "of_nat m + (t - t1) * ?r < capacity tb" using Cons.prems(1) by simp
  have rt: "tokens (refill t tb) = of_nat m + (t - t1) * ?r"
    using below sum cap_ok by (simp add: refill_tokens min_def)
  show ?case
  proof (cases m)
    case 0
    have res: "\<not> fst (Allow t key tb)" using rt lt1 0 by (simp add: Allow_result)
    have tk: "tokens ?tb1 = of_nat 0 + (lastRefillTime ?tb1 - t1) * refillRate ?tb1"
      using rt res 0 by (simp add: Allow_tokens Allow_fields)
    have "fst (Allow_seq ts key ?tb1) =
            replicate (min 0 (length ts)) True @ replicate (length ts - 0) False"
    proof (rule Cons.IH[OF _ _ tk])
      show "capacity ?tb1 = of_nat c" using Cons.prems(1) by (simp add: Allow_fields)
      show "0 < c" using Cons.prems(2) by simp
      show "0 \<le> refillRate ?tb1" using Cons.prems(4) by (simp add: Allow_fields)
      show "t1 \<le> lastRefillTime ?tb1" using Cons.prems(5) le by (simp add: Allow_fields)
      show "sorted (lastRefillTime ?tb1 # ts)" using Cons.prems(6) by (simp add: Allow_fields)
      show "\<forall>t\<in>set ts. (t - t1) * refillRate ?tb1 < 1"
        using Cons.prems(7) by (simp add: Allow_fields)
    qed
    then show ?thesis using res 0 unfolding Allow_seq_Cons by simp
  next
    case (Suc m')
    have res: "fst (Allow t key tb)" using rt ge0 Suc by (simp add: Allow_result)
    have tk: "tokens ?tb1 = of_nat m' + (lastRefillTime ?tb1 - t1) * refillRate ?tb1"
      using rt res Suc by (simp add: Allow_tokens Allow_fields)
    have "fst (Allow_seq ts key ?tb1) =
            replicate (min m' (length ts)) True @ replicate (length ts - m') False"
    proof (rule Cons.IH[OF _ _ tk])
      show "capacity ?tb1 = of_nat c" using Cons.prems(1) by (simp add: Allow_fields)
      show "m' < c" using Cons.prems(2) Suc by simp
      show "0 \<le> refillRate ?tb1" using Cons.prems(4) by (simp add: Allow_fields)
      show "t1 \<le> lastRefillTime ?tb1" using Cons.prems(5) le by (simp add: Allow_fields)
      show "sorted (lastRefillTime ?tb1 # ts)" using Cons.prems(6) by (simp add: Allow_fields)
      show "\<forall>t\<in>set ts. (t - t1) * refillRate ?tb1 < 1"
        using Cons.prems(7) by (simp add: Allow_fields)
    qed
    then show ?thesis using res Suc unfolding Allow_seq_Cons by simp
  qed
qed

lemma deny_zero:
  assumes "capacity tb = 0" "tokens tb = 0"
  shows "fst (Allow_seq ts key tb) = replicate (length ts) False"
  using assms
proof (induction ts arbitrary: tb)
  case Nil
  then show ?case by simp
next
  case (Cons t ts)
  have rt: "tokens (refill t tb) = 0" using Cons.prems by (simp add: refill_tokens)
  have res: "\<not> fst (Allow t key tb)" using rt by (simp add: Allow_result)
  have "fst (Allow_seq ts key (snd (Allow t key tb))) = replicate (length ts) False"
    using Cons.prems rt res by (intro Cons.IH) (simp_all add: Allow_fields Allow_tokens)
  then show ?case using res unfolding Allow_seq_Cons by simp
qed

lemma burst_memory:
  assumes cap: "capacity tb = of_nat c" and full: "tokens tb = capacity tb"
    and rate: "0 \<le> refillRate tb" and srt: "sorted ts"
    and eps: "\<forall>t\<in>set ts. (t - hd ts) * refillRate tb < 1"
    and len: "length ts = c + k"
  shows "fst (Allow_seq ts key tb) = replicate c True @ replicate k False"
proof (cases ts)
  case Nil
  then show ?thesis using len by simp
next
  case (Cons t1 rest)
  let ?tb1 = "snd (Allow t1 key tb)"
  have rt: "tokens (refill t1 tb) = of_nat c" using cap full by (simp add: refill_tokens)
  show ?thesis
  proof (cases c)
    case 0
    have res: "\<not> fst (Allow t1 key tb)" using rt 0 by (simp add: Allow_result)
    have "fst (Allow_seq rest key ?tb1) = replicate (length rest) False"
      using cap rt res 0 by (intro deny_zero) (simp_all add: Allow_fields Allow_tokens)
    then show ?thesis using res 0 len Cons unfolding Cons Allow_seq_Cons
      by (simp add: replicate_Suc[symmetric] del: replicate_Suc)
  next
    case (Suc m)
    have res: "fst (Allow t1 key tb)" using rt Suc by (simp add: Allow_result)
    have tk: "tokens ?tb1 = of_nat m + (lastRefillTime ?tb1 - t1) * refillRate ?tb1"
      using rt res Suc by (simp add: Allow_tokens Allow_fields)
    have "fst (Allow_seq rest key ?tb1) =
            replicate (min m (length rest)) True @ replicate (length rest - m) False"
    proof (rule drain[OF _ _ tk])
      show "capacity ?tb1 = of_nat c" using cap by (simp add: Allow_fields)
      show "m < c" using Suc by simp
      show "0 \<le> refillRate ?tb1" using rate by (simp add: Allow_fields)
      show "t1 \<le> lastRefillTime ?tb1" by (simp add: Allow_fields)
      show "sorted (lastRefillTime ?tb1 # rest)" using srt Cons by (simp add: Allow_fields)
      show "\<forall>t\<in>set rest. (t - t1) * refillRate ?tb1 < 1"
        using eps Cons by (simp add: Allow_fields)
    qed
    moreover have "length rest = m + k" using len Cons Suc by simp
    ultimately show ?thesis using res Suc unfolding Cons Allow_seq_Cons by simp
  qed
qed

lemma coupled_Allow_call:
  assumes "coupled r key sampled tb c"
    and "stored_last (rdb c (keyPrefix r @ key)) \<noteq> None \<longrightarrow> lastRefillTime tb \<le> micro_seconds t"
  shows "fst (redis_Allow r t key c) = Inr (fst (Allow (micro_seconds t) key tb))"
    and "coupled r key False (snd (Allow (micro_seconds t) key tb)) (snd (redis_Allow r t key c))"
    and "stored_last (rdb (snd (redis_Allow r t key c)) (keyPrefix r @ key)) = Some (micro_seconds t)"
proof -
  note st = coupled_Allow[OF assms]
  show "fst (redis_Allow r t key c) = Inr (fst (Allow (micro_seconds t) key tb))"
    using st(1) by (simp add: split_beta split: sum.splits)
  show "coupled r key False (snd (Allow (micro_seconds t) key tb)) (snd (redis_Allow r t key c))"
    using st(2) by (simp add: split_beta split: sum.splits)
  show "stored_last (rdb (snd (redis_Allow r t key c)) (keyPrefix r @ key)) = Some (micro_seconds t)"
    using st(3) by (simp add: split_beta split: sum.splits)
qed

lemma redis_Allow_seq_Cons:
  "fst (redis_Allow_seq r (t # ts) key c) =
     fst (redis_Allow r t key c) # fst (redis_Allow_seq r ts key (snd (redis_Allow r t key c)))"
  by (simp add: split_beta Let_def)

lemma Allow_seq_coupled:
  assumes "coupled r key sampled tb c" "sorted (map micro_seconds ts)"
    and "stored_last (rdb c (keyPrefix r @ key)) \<noteq> None \<longrightarrow>
           (\<forall>t\<in>set ts. lastRefillTime tb \<le> micro_seconds t)"
  shows "fst (redis_Allow_seq r ts key c) = map Inr (fst (Allow_seq (map micro_seconds ts) key tb))"
  using assms
proof (induction ts arbitrary: tb c sampled)
  case Nil
  then show ?case by simp
next
  case (Cons t ts)
  have le: "stored_last (rdb c (keyPrefix r @ key)) \<noteq> None \<longrightarrow> lastRefillTime tb \<le> micro_seconds t"
    using Cons.prems(3) by simp
  note st = coupled_Allow_call[OF Cons.prems(1) le]
  have srt: "sorted (map micro_seconds ts)" using Cons.prems(2) by simp
  have nxt: "stored_last (rdb (snd (redis_Allow r t key c)) (keyPrefix r @ key)) \<noteq> None \<longrightarrow>
           (\<forall>u\<in>set ts. lastRefillTime (snd (Allow (micro_seconds t) key tb)) \<le> micro_seconds u)"
    using Cons.prems(2) by (simp add: Allow_fields)
  from Cons.IH[OF st(2) srt nxt] st(1) show ?case
    unfolding redis_Allow_seq_Cons list.map Allow_seq_Cons by simp
qed

lemma fresh_coupled:
  assumes "connected c" "rdb c (keyPrefix r @ key) = None" "0 \<le> r_capacity r" "0 < r_refillRate r"
  shows "coupled r key False (NewTokenBucket (r_capacity r) (r_refillRate r) t0) c"
  using assms
  by (simp add: coupled_def NewTokenBucket_def bucket_equiv_def stored_last_def stored_tokens_def)

lemma burst_redis:
  assumes "connected c" "rdb c (keyPrefix r @ key) = None"
    and "r_capacity r = of_nat n" "0 < r_refillRate r" "sorted ts"
    and "\<forall>t\<in>set ts. (micro_seconds t - micro_seconds (hd ts)) * r_refillRate r < 1"
    and "length ts = n + k"
  shows "fst (redis_Allow_seq r ts key c) = map Inr (replicate n True @ replicate k False)"
proof -
  let ?tb = "NewTokenBucket (r_capacity r) (r_refillRate r) 0"
  have cp: "coupled r key False ?tb c" using assms(1,2,3,4) by (intro fresh_coupled) simp_all
  have s: "sorted (map micro_seconds ts)" using assms(5)
    by (simp add: sorted_map sorted_wrt_mono_rel[of ts "(\<le>)"] micro_seconds_mono)
  have nl: "stored_last (rdb c (keyPrefix r @ key)) \<noteq> None \<longrightarrow>
           (\<forall>t\<in>set ts. lastRefillTime ?tb \<le> micro_seconds t)"
    using assms(2) by (simp add: stored_last_def)
  have hd: "hd (map micro_seconds ts) = micro_seconds (hd ts)" if "ts \<noteq> []"
    using that by (cases ts) simp_all
  have "fst (Allow_seq (map micro_seconds ts) key ?tb) = replicate n True @ replicate k False"
  proof (intro burst_memory)
    show "capacity ?tb = of_nat n" using assms(3) by (simp add: NewTokenBucket_def)
    show "tokens ?tb = capacity ?tb" by (simp add: NewTokenBucket_def)
    show "0 \<le> refillRate ?tb" using assms(4) by (simp add: NewTokenBucket_def)
    show "sorted (map micro_seconds ts)" by (rule s)
    show "\<forall>t\<in>set (map micro_seconds ts). (t - hd (map micro_seconds ts)) * refillRate ?tb < 1"
      using assms(6) hd by (cases "ts = []") (simp_all add: NewTokenBucket_def)
    show "length (map micro_seconds ts) = n + k" using assms(7) by simp
  qed
  then show ?thesis using Allow_seq_coupled[OF cp s nl] by simp
qed

lemma stored_HGET:
  "stored_tokens cap (db k) = (case HGET_tokens db k of Some v \<Rightarrow> v | None \<Rightarrow> cap)"
  "stored_last (db k) = HGET_last_refill db k"
  by (simp_all add: stored_tokens_def stored_last_def HGET_tokens_def HGET_last_refill_def
      hash_at_def empty_hash_def split: option.splits)

lemma hash_after_refill_script:
  assumes "rate \<noteq> 0" "0 < idle_expiry cap rate"
  shows "HGET_tokens (snd (refill_script k n cap rate db)) k =
     Some ((case HGET_tokens db k of Some v \<Rightarrow> v | None \<Rightarrow> cap) + n)"
    and "HGET_last_refill (snd (refill_script k n cap rate db)) k = HGET_last_refill db k"
  unfolding refill_script_store[OF assms] stored_HGET
  by (simp_all add: HGET_tokens_def HGET_last_refill_def hash_at_def)

lemma hash_after_allow_script:
  assumes "rate \<noteq> 0" "0 < idle_expiry cap rate"
  shows "HGET_last_refill (snd (allow_script k cap rate now db)) k = Some now"
  unfolding allow_script_store[OF assms] by (simp add: HGET_last_refill_def hash_at_def)


lemma HGET_after_allow_script:
  assumes "rate \<noteq> 0" "0 < idle_expiry cap rate"
  shows "HGET_tokens (snd (allow_script k cap rate now db)) k =
     Some (let tks1 = lua_refill cap rate
                        (now - (case HGET_last_refill db k of Some v \<Rightarrow> v | None \<Rightarrow> now))
                        (case HGET_tokens db k of Some v \<Rightarrow> v | None \<Rightarrow> cap)
           in if 1 \<le> tks1 then tks1 - 1 else tks1)"
  unfolding allow_script_store[OF assms] stored_HGET by (simp add: HGET_tokens_def hash_at_def)


lemma EXPIRE_other: "k' \<noteq> k \<Longrightarrow> EXPIRE db k n k' = db k'"
  by (simp add: EXPIRE_def split: option.splits)

lemma expire_call_other: "k' \<noteq> k \<Longrightarrow> snd (expire_call db k cap rate) k' = db k'"
  by (simp add: expire_call_def EXPIRE_other)

lemma allow_script_other: "k' \<noteq> k \<Longrightarrow> snd (allow_script k cap rate now db) k' = db k'"
proof -
  assume n: "k' \<noteq> k"
  show ?thesis
    using expire_call_other[OF n, of _ cap rate] n
    by (simp add: allow_script_def Let_def split_beta HMSET_def split: option.splits prod.splits)
qed

lemma refill_script_other: "k' \<noteq> k \<Longrightarrow> snd (refill_script k n cap rate db) k' = db k'"
proof -
  assume n: "k' \<noteq> k"
  show ?thesis
    using expire_call_other[OF n, of _ cap rate] n
    by (simp add: refill_script_def Let_def split_beta HSET_tokens_def split: option.splits prod.splits)
qed

lemma allow_script_ttl:
  assumes "rate \<noteq> 0" "0 < idle_expiry cap rate"
  shows "map_option h_ttl (snd (allow_script k cap rate now db) k) = Some (Some (idle_expiry cap rate))"
  by (simp add: allow_script_store[OF assms])

lemma refill_script_ttl:
  assumes "rate \<noteq> 0" "0 < idle_expiry cap rate"
  shows "map_option h_ttl (snd (refill_script k n cap rate db) k) = Some (Some (idle_expiry cap rate))"
  by (simp add: refill_script_store[OF assms])

section \<open>Facts about the trust tracker\<close>

lemma New_config:
  "0 < Threshold (config (New cfg))" "0 < Window (config (New cfg))"
  by (simp_all add: New_def Let_def Hour_def)

lemma New_payments: "payments_of (New cfg) w = []"
  by (simp add: New_def Let_def payments_of_def)

lemma track_config: "config (track e t) = config t"
  by (cases e) (simp_all add: RecordSuccess_def RecordFailure_def cleanup_def Let_def)

lemma track_all_config: "config (track_all evs t) = config t"
  by (induction evs arbitrary: t) (simp_all add: track_config)

lemma payments_of_RecordSuccess:
  "payments_of (RecordSuccess t now now' w') w =
     (if w' = w
      then filter (\<lambda>ts. now' - Window (config t) < ts) (payments_of t w @ [now])
      else payments_of t w)"
  by (simp add: RecordSuccess_def cleanup_def Let_def payments_of_def)

lemma payments_of_RecordFailure:
  "payments_of (RecordFailure t w') w = (if w' = w then [] else payments_of t w)"
  by (simp add: RecordFailure_def payments_of_def)

lemma RecordFailure_config: "config (RecordFailure t w) = config t"
  by (simp add: RecordFailure_def)

lemma filter_recent_twice:
  assumes "(c::int) \<le> now"
  shows "filter (\<lambda>ts. now - W < ts) (filter (\<lambda>ts. c - W < ts) xs) = filter (\<lambda>ts. now - W < ts) xs"
  using assms by (induction xs) auto

lemma stored_matches_recorded:
  assumes "\<forall>now\<ge>lo. filter (\<lambda>ts. now - Window (config t) < ts) (payments_of t w) =
                     filter (\<lambda>ts. now - Window (config t) < ts) acc"
    and "sorted (lo # readings evs)"
  shows "\<forall>now\<ge>last (lo # readings evs).
           filter (\<lambda>ts. now - Window (config t) < ts) (payments_of (track_all evs t) w) =
           filter (\<lambda>ts. now - Window (config t) < ts) (recorded acc evs w)"
  using assms
proof (induction evs arbitrary: t acc lo)
  case Nil
  then show ?case by simp
next
  case (Cons e evs)
  show ?case
  proof (cases e)
    case (EvSuccess w' n1 n2)
    let ?t' = "RecordSuccess t n1 n2 w'"
    let ?acc' = "if w' = w then acc @ [n1] else acc"
    have ord: "lo \<le> n1" "n1 \<le> n2" and srt: "sorted (n2 # readings evs)"
      using Cons.prems(2) EvSuccess by auto
    have cfg: "config ?t' = config t" using track_config[of "EvSuccess w' n1 n2" t] by simp
    have inv: "\<forall>now\<ge>n2. filter (\<lambda>ts. now - Window (config ?t') < ts) (payments_of ?t' w) =
                          filter (\<lambda>ts. now - Window (config ?t') < ts) ?acc'"
    proof (intro allI impI)
      fix now assume n: "n2 \<le> now"
      then have lo: "lo \<le> now" using ord by simp
      show "filter (\<lambda>ts. now - Window (config ?t') < ts) (payments_of ?t' w) =
            filter (\<lambda>ts. now - Window (config ?t') < ts) ?acc'"
        unfolding cfg payments_of_RecordSuccess
        using Cons.prems(1)[rule_format, OF lo] filter_recent_twice[OF n] n
        by auto
    qed
    from Cons.IH[OF inv srt] show ?thesis
      using EvSuccess cfg by simp
  next
    case (EvFailure w')
    let ?t' = "RecordFailure t w'"
    let ?acc' = "if w' = w then [] else acc"
    have srt: "sorted (lo # readings evs)" using Cons.prems(2) EvFailure by simp
    have cfg: "config ?t' = config t" using track_config[of "EvFailure w'" t] by simp
    have inv: "\<forall>now\<ge>lo. filter (\<lambda>ts. now - Window (config ?t') < ts) (payments_of ?t' w) =
                          filter (\<lambda>ts. now - Window (config ?t') < ts) ?acc'"
      unfolding cfg payments_of_RecordFailure using Cons.prems(1) by simp
    from Cons.IH[OF inv srt] show ?thesis
      using EvFailure cfg by simp
  qed
qed

lemma recorded_history:
  assumes "sorted (readings evs @ [now])"
  shows "countRecent (track_all evs (New cfg)) now w =
           int (length (filter (\<lambda>ts. now - Window (config (New cfg)) < ts) (recorded [] evs w)))"
proof -
  let ?t0 = "New cfg"
  define lo where "lo = hd (readings evs @ [now])"
  have s: "sorted (lo # readings evs)"
    using assms unfolding lo_def by (cases "readings evs") (simp_all add: sorted_append)
  have le: "last (lo # readings evs) \<le> now"
  proof (cases "readings evs = []")
    case True
    then show ?thesis by (simp add: lo_def)
  next
    case False
    then have "last (readings evs) \<in> set (readings evs)" by simp
    then have "last (readings evs) \<le> now" using assms by (simp add: sorted_append)
    then show ?thesis using False by simp
  qed
  have inv: "\<forall>n\<ge>lo. filter (\<lambda>ts. n - Window (config ?t0) < ts) (payments_of ?t0 w) =
                      filter (\<lambda>ts. n - Window (config ?t0) < ts) []"
    by (simp add: New_payments)
  from stored_matches_recorded[OF inv s, rule_format, OF le]
  show ?thesis by (simp add: countRecent_def Let_def track_all_config)
qed

section \<open>Facts about the settlement queue\<close>

lemma spaced_snoc:
  "spaced (xs @ [(j, s, e, l)]) \<longleftrightarrow>
     spaced xs \<and> (xs = [] \<or> left_of (last xs) + settle_delay \<le> e)"
proof (induction xs rule: spaced.induct)
  case 1
  then show ?case by simp
next
  case (2 x)
  then show ?case by (cases x) (simp add: left_of_def)
next
  case (3 j0 s0 e0 l0 j' s' e' l' rest)
  then show ?case by auto
qed

lemma delays_kept_snoc:
  "delays_kept (xs @ [(j, s, e, l)]) \<longleftrightarrow>
     delays_kept xs \<and> (if xs = [] then s = 0 else settle_delay \<le> s)"
  by (cases xs) (auto simp: delays_kept_def slept_of_def)

lemma Enqueue_inv: "worker_inv sq \<Longrightarrow> worker_inv (snd (Enqueue now job sq))"
  by (auto simp: worker_inv_def Enqueue_def Let_def)

lemma worker_turn_inv:
  assumes "worker_inv (fst st)"
  shows "worker_inv (fst (worker_turn tn st))"
proof (cases "jobs (fst st)")
  case Nil
  then show ?thesis using assms by (simp add: worker_turn_def)
next
  case (Cons job rest)
  let ?sq = "fst st"
  have i: "map fst (settled ?sq) @ jobs ?sq = sent ?sq" "spaced (settled ?sq)"
    "delays_kept (settled ?sq)" "first ?sq \<longleftrightarrow> settled ?sq = []"
    "settled ?sq = [] \<or> left_of (last (settled ?sq)) = wclock ?sq"
    using assms by (simp_all add: worker_inv_def)
  show ?thesis
    using i Cons
    by (auto simp: worker_inv_def worker_turn_def Let_def spaced_snoc delays_kept_snoc
        left_of_def)
qed

lemma queue_step_inv: "worker_inv (fst st) \<Longrightarrow> worker_inv (fst (queue_step e st))"
proof (cases e)
  case (Produce now job)
  assume "worker_inv (fst st)"
  from Enqueue_inv[OF this, of now job] show ?thesis
    using Produce \<open>worker_inv (fst st)\<close> by (simp split: prod.splits bool.splits) auto
next
  case (Consume tn)
  assume "worker_inv (fst st)"
  then show ?thesis using Consume by (simp add: worker_turn_inv)
qed

lemma queue_run_inv: "worker_inv (fst st) \<Longrightarrow> worker_inv (fst (queue_run evs st))"
  by (induction evs arbitrary: st) (simp_all add: queue_step_inv)

lemma New_inv: "worker_inv (NewSettlementQueue n t0)"
  by (simp add: worker_inv_def NewSettlementQueue_def delays_kept_def)

lemma spaced_nth:
  "spaced xs \<Longrightarrow> Suc i < length xs \<Longrightarrow> left_of (xs ! i) + settle_delay \<le> entered_of (xs ! Suc i)"
proof (induction xs arbitrary: i rule: spaced.induct)
  case 1
  then show ?case by simp
next
  case (2 x)
  then show ?case by simp
next
  case (3 j0 s0 e0 l0 j' s' e' l' rest)
  show ?case
  proof (cases i)
    case 0
    then show ?thesis using "3.prems" by (simp add: left_of_def entered_of_def)
  next
    case (Suc i')
    then show ?thesis using "3.IH"[of i'] "3.prems" by simp
  qed
qed

lemma delays_kept_nth:
  assumes "delays_kept xs" "i < length xs"
  shows "if i = 0 then slept_of (xs ! i) = 0 else settle_delay \<le> slept_of (xs ! i)"
proof (cases xs)
  case Nil
  then show ?thesis using assms by simp
next
  case (Cons x rest)
  then have h: "slept_of x = 0" "list_all (\<lambda>s. settle_delay \<le> s) (map slept_of rest)"
    using assms(1) by (simp_all add: delays_kept_def)
  show ?thesis
  proof (cases i)
    case 0
    then show ?thesis using Cons h by simp
  next
    case (Suc i')
    then have "i' < length rest" using assms(2) Cons by simp
    then have "settle_delay \<le> slept_of (rest ! i')"
      using h(2) by (simp add: list_all_length)
    then show ?thesis using Suc Cons by simp
  qed
qed

section \<open>Facts about the admission pipeline\<close>

lemma middleware_sync_success:
  assumes "limiter_Allow (at_Allow env) (ClientIP req)
             (with_link (link_at_Allow env) (the_limiter s)) = (Inr False, lim1)"
    and "payment_header req \<noteq> ''''"
    and "ProcessHTTPRequest env (payment_header req) = ResultPaymentVerified payload reqs"
    and "\<not> optimistic (s\<lparr>the_limiter := lim1\<rparr>) (at_IsTrusted env)
             (extractWalletAddress (lib env) (payment_header req))"
    and "Success (ProcessSettlement env payload reqs)"
    and "limiter_Refill (ClientIP req) (cfg_capacity s) (with_link (link_at_Refill env) lim1) =
           (None, lim2)"
  shows "hybridRateLimitPaymentMiddleware env req s =
           (Next, s\<lparr>the_limiter := lim2,
                    trustTracker :=
                      map_option (\<lambda>t. RecordSuccess t (at_RecordSuccess env) (at_cleanup env)
                                    (extractWalletAddress (lib env) (payment_header req)))
                        (trustTracker s)\<rparr>)"
  using assms
  by (simp add: hybridRateLimitPaymentMiddleware_def Let_def payment_header_def
      map_option_case split: option.splits)

lemma middleware_sync_refill_error:
  assumes "limiter_Allow (at_Allow env) (ClientIP req)
             (with_link (link_at_Allow env) (the_limiter s)) = (Inr False, lim1)"
    and "payment_header req \<noteq> ''''"
    and "ProcessHTTPRequest env (payment_header req) = ResultPaymentVerified payload reqs"
    and "\<not> optimistic (s\<lparr>the_limiter := lim1\<rparr>) (at_IsTrusted env)
             (extractWalletAddress (lib env) (payment_header req))"
    and "Success (ProcessSettlement env payload reqs)"
    and "limiter_Refill (ClientIP req) (cfg_capacity s) (with_link (link_at_Refill env) lim1) =
           (Some err, lim2)"
  shows "hybridRateLimitPaymentMiddleware env req s =
           (AbortJSON 500 [(''error'', ''Refill error'')], s\<lparr>the_limiter := lim2\<rparr>)"
  using assms
  by (simp add: hybridRateLimitPaymentMiddleware_def Let_def payment_header_def)

lemma middleware_sync_failure:
  assumes "limiter_Allow (at_Allow env) (ClientIP req)
             (with_link (link_at_Allow env) (the_limiter s)) = (Inr False, lim1)"
    and "payment_header req \<noteq> ''''"
    and "ProcessHTTPRequest env (payment_header req) = ResultPaymentVerified payload reqs"
    and "\<not> optimistic (s\<lparr>the_limiter := lim1\<rparr>) (at_IsTrusted env)
             (extractWalletAddress (lib env) (payment_header req))"
    and "\<not> Success (ProcessSettlement env payload reqs)"
  shows "hybridRateLimitPaymentMiddleware env req s =
           (AbortJSON 402 [(''error'', ''Settlement failed''),
                           (''reason'', ErrorReason (ProcessSettlement env payload reqs))],
            s\<lparr>the_limiter := lim1\<rparr>)"
  using assms
  by (simp add: hybridRateLimitPaymentMiddleware_def Let_def payment_header_def)

lemma RecordSuccess_explicit:
  "RecordSuccess t a b w =
     t\<lparr>payments := (payments t)(w \<mapsto>
          filter (\<lambda>ts. b - Window (config t) < ts) (payments_of t w @ [a]))\<rparr>"
  by (simp add: RecordSuccess_def cleanup_def payments_of_def Let_def)

section \<open>Claims about the limiters\<close>

text \<open>
  Claim C1, as amended. The natural-refill rule (below capacity the count becomes the
  smaller of the capacity and the count plus the elapsed time times the refill rate, at or
  above capacity it stays; the last refill time becomes \<open>now\<close>) is what \<^verbatim>\<open>refill\<close> does,
  and the local \<^verbatim>\<open>Allow\<close> and \<^verbatim>\<open>Available\<close> apply and keep it. On a live connection, with a
  positive capacity and refill rate, the shared limiter's \<^verbatim>\<open>Allow\<close> stores the count the rule
  gives (less a consumed token) and its clock reading, in whole microseconds, as
  \<^verbatim>\<open>last_refill\<close>. The shared limiter's \<^verbatim>\<open>Available\<close> computes the count by the rule from the
  stored hash (a key never seen counts as full, a hash without \<^verbatim>\<open>last_refill\<close> as it is),
  reports it in whole tokens and stores nothing. Where the rule is applied at or above
  capacity, the result does not depend on the last refill time, so the interval before it
  is dropped for good. Nothing is said of \<^verbatim>\<open>Refill\<close>.
\<close>

theorem natural_refill_where_applied:
  "refill now tb =
     tb\<lparr>tokens := (if tokens tb < capacity tb
                   then min (capacity tb) (tokens tb + (now - lastRefillTime tb) * refillRate tb)
                   else tokens tb),
        lastRefillTime := now\<rparr> \<and>
   Allow now key tb =
     (1 \<le> tokens (refill now tb),
      (refill now tb)\<lparr>tokens := tokens (refill now tb) -
                                  (if 1 \<le> tokens (refill now tb) then 1 else 0)\<rparr>) \<and>
   Available now tb = (tokens (refill now tb), refill now tb) \<and>
   (connected c \<and> 0 < r_capacity r \<and> 0 < r_refillRate r \<longrightarrow>
    (let fk = keyPrefix r @ key;
         s = (case HGET_tokens (rdb c) fk of Some v \<Rightarrow> v | None \<Rightarrow> r_capacity r);
         l = (case HGET_last_refill (rdb c) fk of Some v \<Rightarrow> v | None \<Rightarrow> micro_seconds t);
         R = (if s < r_capacity r
              then min (r_capacity r) (s + (micro_seconds t - l) * r_refillRate r) else s);
         c1 = snd (redis_Allow r t key c)
     in fst (redis_Allow r t key c) = Inr (1 \<le> R) \<and>
        HGET_tokens (rdb c1) fk = Some (R - (if 1 \<le> R then 1 else 0)) \<and>
        HGET_last_refill (rdb c1) fk = Some (micro_seconds t))) \<and>
   (connected c \<longrightarrow>
    (let fk = keyPrefix r @ key
     in redis_Available r t key c =
          Inr (of_int (integer_reply
            (case HGET_tokens (rdb c) fk of
               None \<Rightarrow> r_capacity r
             | Some s \<Rightarrow>
                 (case HGET_last_refill (rdb c) fk of
                    None \<Rightarrow> s
                  | Some l \<Rightarrow>
                      if s < r_capacity r
                      then min (r_capacity r) (s + (micro_seconds t - l) * r_refillRate r)
                      else s)))))) \<and>
   snd (red_step r t key OpAvailable c) = c \<and>
   (capacity tb \<le> tokens tb \<longrightarrow>
      refill now (tb\<lparr>lastRefillTime := l0\<rparr>) = refill now tb \<and> tokens (refill now tb) = tokens tb) \<and>
   (cap \<le> tks \<longrightarrow> lua_refill cap rate elapsed tks = tks)"
proof (intro conjI impI)
  show "refill now tb =
     tb\<lparr>tokens := (if tokens tb < capacity tb
                   then min (capacity tb) (tokens tb + (now - lastRefillTime tb) * refillRate tb)
                   else tokens tb),
        lastRefillTime := now\<rparr>"
    by (simp add: refill_def Let_def min_def)
  show "Allow now key tb =
     (1 \<le> tokens (refill now tb),
      (refill now tb)\<lparr>tokens := tokens (refill now tb) -
                                  (if 1 \<le> tokens (refill now tb) then 1 else 0)\<rparr>)"
    by (simp add: Allow_def Let_def)
  show "Available now tb = (tokens (refill now tb), refill now tb)"
    by (simp add: Available_def Let_def)
  show "snd (red_step r t key OpAvailable c) = c"
    by (simp split: sum.splits)
next
  assume a: "connected c \<and> 0 < r_capacity r \<and> 0 < r_refillRate r"
  have up: "connected c" and nz: "r_refillRate r \<noteq> 0"
    and pos: "0 < idle_expiry (r_capacity r) (r_refillRate r)"
    using a by (simp_all add: idle_expiry_pos)
  show "let fk = keyPrefix r @ key;
         s = (case HGET_tokens (rdb c) fk of Some v \<Rightarrow> v | None \<Rightarrow> r_capacity r);
         l = (case HGET_last_refill (rdb c) fk of Some v \<Rightarrow> v | None \<Rightarrow> micro_seconds t);
         R = (if s < r_capacity r
              then min (r_capacity r) (s + (micro_seconds t - l) * r_refillRate r) else s);
         c1 = snd (redis_Allow r t key c)
     in fst (redis_Allow r t key c) = Inr (1 \<le> R) \<and>
        HGET_tokens (rdb c1) fk = Some (R - (if 1 \<le> R then 1 else 0)) \<and>
        HGET_last_refill (rdb c1) fk = Some (micro_seconds t)"
    unfolding Let_def redis_Allow_connected[OF up nz] fst_conv snd_conv stored_HGET lua_refill_min
    by (simp add: HGET_after_allow_script[OF nz pos] hash_after_allow_script[OF nz pos]
        lua_refill_min Let_def)
next
  assume up: "connected c"
  show "let fk = keyPrefix r @ key
     in redis_Available r t key c =
          Inr (of_int (integer_reply
            (case HGET_tokens (rdb c) fk of
               None \<Rightarrow> r_capacity r
             | Some s \<Rightarrow>
                 (case HGET_last_refill (rdb c) fk of
                    None \<Rightarrow> s
                  | Some l \<Rightarrow>
                      if s < r_capacity r
                      then min (r_capacity r) (s + (micro_seconds t - l) * r_refillRate r)
                      else s))))"
    using up
    by (simp add: Let_def redis_Available_def available_script_def lua_refill_min
        split: option.splits)
next
  assume "capacity tb \<le> tokens tb"
  then show "refill now (tb\<lparr>lastRefillTime := l0\<rparr>) = refill now tb"
    and "tokens (refill now tb) = tokens tb"
    by (simp_all add: refill_def Let_def)
next
  assume "cap \<le> tks"
  then show "lua_refill cap rate elapsed tks = tks" by (rule lua_refill_full)
qed

text \<open>
  The theorem at work: a bucket above capacity is left as it is, whenever it was last
  refilled; a bucket of capacity 4 with 1 token gains 2 in half a second. A key of the
  shared limiter that holds half a token since time 0 is, a quarter of a second later,
  reported by \<^verbatim>\<open>Available\<close> as 1 (the rule gives 3/2), and \<^verbatim>\<open>Allow\<close> then stores 1/2 and the
  time 1/4.
\<close>

theorem natural_refill_where_applied_witness:
  "refill 10 \<lparr>capacity = 4, refillRate = 4, tokens = 8, lastRefillTime = 0\<rparr> =
     \<lparr>capacity = 4, refillRate = 4, tokens = 8, lastRefillTime = 10\<rparr> \<and>
   refill 10 \<lparr>capacity = 4, refillRate = 4, tokens = 8, lastRefillTime = 9\<rparr> =
     \<lparr>capacity = 4, refillRate = 4, tokens = 8, lastRefillTime = 10\<rparr> \<and>
   lua_refill 4 4 10 8 = 8 \<and>
   refill (1/2) \<lparr>capacity = 4, refillRate = 4, tokens = 1, lastRefillTime = 0\<rparr> =
     \<lparr>capacity = 4, refillRate = 4, tokens = 3, lastRefillTime = 1/2\<rparr> \<and>
   (let r = NewRedisTokenBucket 4 4 '''';
        c = \<lparr>connected = True,
             rdb = [''ratelimit:10.0.0.1'' \<mapsto>
                     \<lparr>h_tokens = Some (1/2), h_last_refill = Some 0, h_ttl = Some 2\<rparr>]\<rparr>;
        c1 = snd (redis_Allow r (1/4) ''10.0.0.1'' c)
    in redis_Available r (1/4) ''10.0.0.1'' c = Inr 1 \<and>
       fst (redis_Allow r (1/4) ''10.0.0.1'' c) = Inr True \<and>
       HGET_tokens (rdb c1) ''ratelimit:10.0.0.1'' = Some (1/2) \<and>
       HGET_last_refill (rdb c1) ''ratelimit:10.0.0.1'' = Some (1/4))"
proof -
  let ?tb = "\<lparr>capacity = 4, refillRate = 4, tokens = 8, lastRefillTime = 0\<rparr>"
  let ?tb1 = "\<lparr>capacity = 4, refillRate = 4, tokens = 1, lastRefillTime = 0\<rparr>"
  let ?r = "NewRedisTokenBucket 4 4 ''''"
  let ?c = "\<lparr>connected = True,
             rdb = [''ratelimit:10.0.0.1'' \<mapsto>
                     \<lparr>h_tokens = Some (1/2), h_last_refill = Some 0, h_ttl = Some 2\<rparr>]\<rparr>"
  have h: "capacity ?tb \<le> tokens ?tb" by simp
  have h2: "(4::rat) \<le> 8" by simp
  have h3: "connected ?c \<and> 0 < r_capacity ?r \<and> 0 < r_refillRate ?r"
    by (simp add: NewRedisTokenBucket_def)
  have h4: "connected ?c" by simp
  have m: "micro_seconds (1/4) = 1/4" "integer_reply (3/2) = 1" by code_simp+
  have k: "keyPrefix ?r @ ''10.0.0.1'' = ''ratelimit:10.0.0.1''"
    "r_capacity ?r = 4" "r_refillRate ?r = 4"
    by (simp_all add: NewRedisTokenBucket_def)
  have g: "HGET_tokens (rdb ?c) ''ratelimit:10.0.0.1'' = Some (1/2)"
    "HGET_last_refill (rdb ?c) ''ratelimit:10.0.0.1'' = Some 0"
    by (simp_all add: HGET_tokens_def HGET_last_refill_def hash_at_def)
  note T = natural_refill_where_applied[of 10 ?tb "''10.0.0.1''" ?c ?r "1/4" 9 4 8 4 10]
  note U = natural_refill_where_applied[of "1/2" ?tb1 "''10.0.0.1''" ?c ?r "1/4" 9 4 8 4 10]
  have A: "refill 10 ?tb = ?tb\<lparr>lastRefillTime := 10\<rparr> \<and>
           refill 10 (?tb\<lparr>lastRefillTime := 9\<rparr>) = ?tb\<lparr>lastRefillTime := 10\<rparr> \<and>
           lua_refill 4 4 10 8 = 8"
    using T h h2 by simp
  have B: "refill (1/2) ?tb1 = ?tb1\<lparr>tokens := 3, lastRefillTime := 1/2\<rparr>"
    using U by simp
  note T4 = T[THEN conjunct2, THEN conjunct2, THEN conjunct2]
  have C: "fst (redis_Allow ?r (1/4) ''10.0.0.1'' ?c) = Inr True \<and>
           HGET_tokens (rdb (snd (redis_Allow ?r (1/4) ''10.0.0.1'' ?c))) ''ratelimit:10.0.0.1'' = Some (1/2) \<and>
           HGET_last_refill (rdb (snd (redis_Allow ?r (1/4) ''10.0.0.1'' ?c))) ''ratelimit:10.0.0.1'' = Some (1/4)"
    using mp[OF T4[THEN conjunct1] h3] unfolding Let_def k g m by simp
  have D: "redis_Available ?r (1/4) ''10.0.0.1'' ?c = Inr 1"
    using mp[OF T4[THEN conjunct2, THEN conjunct1] h4] unfolding Let_def k g m
    by (simp add: m)
  from A B C D show ?thesis by (simp add: Let_def)
qed

text \<open>
  Claim C1 as stated fails on the shared limiter's \<^verbatim>\<open>Available\<close> and on \<^verbatim>\<open>Refill\<close>. A key
  emptied at time 0 is reported at time 1/2 as holding 2 tokens, but the hash still holds 0
  tokens and \<^verbatim>\<open>last_refill\<close> 0 afterwards; at time 1/8, where the rule gives half a token,
  it is reported as holding 0. An \<^verbatim>\<open>Allow\<close> of the shared limiter half a microsecond after
  time 0 stores 0 as \<^verbatim>\<open>last_refill\<close>. On a bucket emptied at time 0, a \<^verbatim>\<open>Refill\<close> of 4
  called at time 1/2 leaves the last refill time at 0 and the count at 4, where the rule
  applied first would have given 6; the shared limiter's \<^verbatim>\<open>Refill\<close> leaves \<^verbatim>\<open>last_refill\<close> at
  0 as well.
\<close>

theorem shared_Available_and_Refill_keep_last_refill:
  "(let r = NewRedisTokenBucket 4 4 '''';
        c0 = snd (redis_Allow_seq r [0, 0, 0, 0] ''10.0.0.1'' \<lparr>connected = True, rdb = Map.empty\<rparr>);
        c1 = snd (redis_Refill r ''10.0.0.1'' 4 c0)
    in HGET_tokens (rdb c0) ''ratelimit:10.0.0.1'' = Some 0 \<and>
       HGET_last_refill (rdb c0) ''ratelimit:10.0.0.1'' = Some 0 \<and>
       red_step r (1/2) ''10.0.0.1'' OpAvailable c0 = (ResAvailable 2, c0) \<and>
       HGET_last_refill (rdb c0) ''ratelimit:10.0.0.1'' \<noteq> Some (1/2) \<and>
       available_script ''ratelimit:10.0.0.1'' 4 4 (1/8) (rdb c0) = 1/2 \<and>
       red_step r (1/8) ''10.0.0.1'' OpAvailable c0 = (ResAvailable 0, c0) \<and>
       HGET_last_refill
         (rdb (snd (redis_Allow r (1/2000000) ''10.0.0.1'' \<lparr>connected = True, rdb = Map.empty\<rparr>)))
         ''ratelimit:10.0.0.1'' = Some 0 \<and>
       HGET_tokens (rdb c1) ''ratelimit:10.0.0.1'' = Some 4 \<and>
       HGET_last_refill (rdb c1) ''ratelimit:10.0.0.1'' = Some 0) \<and>
   (let tb0 = snd (Allow_seq [0, 0, 0, 0] ''10.0.0.1'' (NewTokenBucket 4 4 0));
        tb1 = Refill ''10.0.0.1'' 4 tb0
    in tokens tb0 = 0 \<and> lastRefillTime tb0 = 0 \<and>
       tokens (refill (1/2) tb0) = 2 \<and>
       tokens tb1 = 4 \<and> lastRefillTime tb1 \<noteq> 1/2 \<and>
       fst (Available (1/2) tb1) = 4 \<and>
       fst (Available (1/2) (Refill ''10.0.0.1'' 4 (refill (1/2) tb0))) = 6)"
proof -
  have m: "micro_seconds 0 = 0" "micro_seconds (1/2) = 1/2" "integer_reply 2 = 2"
    "idle_expiry 4 4 = 2" "micro_seconds (1/8) = 1/8" "integer_reply (1/2) = 0"
    "micro_seconds (1/2000000) = 0"
    by code_simp+
  show ?thesis
    by (simp add: Let_def NewTokenBucket_def Allow_def refill_def Refill_def Available_def
      NewRedisTokenBucket_def redis_Allow_def redis_Refill_def redis_Available_def
      allow_script_def refill_script_def available_script_def lua_refill_def
      HGET_tokens_def HGET_last_refill_def HMSET_def HSET_tokens_def EXPIRE_def hash_at_def
      empty_hash_def expire_call_def m)
qed

text \<open>
  Claim C2. \<^verbatim>\<open>Allow(key)\<close> applies the natural refill: with \<open>R\<close> the refilled count (below
  capacity the smaller of the capacity and the count plus the elapsed time times the refill
  rate, otherwise the count as it is), it permits the request if and only if \<open>1 \<le> R\<close>,
  leaves \<open>R - 1\<close> tokens if it permits and \<open>R\<close> if it refuses, and sets the last refill time
  to \<open>now\<close>. This is what the local \<^verbatim>\<open>Allow\<close> does, what the shared limiter's script does on
  the stored hash (capacity and refill rate positive; a key never seen counts as full and
  refilled just now), and what the Go call \<^verbatim>\<open>Allow\<close> of the shared limiter does on a live
  connection, with the clock reading cut down to whole microseconds. A burst of \<open>n + j\<close>
  calls on a full bucket of capacity \<open>n\<close>, at non-decreasing clock readings all within less
  than one token's refill time of the first, admits exactly the first \<open>n\<close>: for a local
  bucket, and for a fresh key of the shared limiter.
\<close>

theorem Allow_takes_one_token_or_none:
  "(let R = (if tokens tb < capacity tb
             then min (capacity tb) (tokens tb + (now - lastRefillTime tb) * refillRate tb)
             else tokens tb)
    in Allow now key tb =
         (1 \<le> R, tb\<lparr>tokens := R - (if 1 \<le> R then 1 else 0), lastRefillTime := now\<rparr>)) \<and>
   (0 < cap \<and> 0 < rate \<longrightarrow>
    (let s = (case HGET_tokens db k of Some v \<Rightarrow> v | None \<Rightarrow> cap);
         l = (case HGET_last_refill db k of Some v \<Rightarrow> v | None \<Rightarrow> now);
         R = (if s < cap then min cap (s + (now - l) * rate) else s);
         db1 = snd (allow_script k cap rate now db)
     in fst (allow_script k cap rate now db) = Inr (if 1 \<le> R then 1 else 0) \<and>
        HGET_tokens db1 k = Some (R - (if 1 \<le> R then 1 else 0)) \<and>
        HGET_last_refill db1 k = Some now)) \<and>
   (connected c \<and> 0 < r_capacity r \<and> 0 < r_refillRate r \<longrightarrow>
    (let fk = keyPrefix r @ key;
         s = (case HGET_tokens (rdb c) fk of Some v \<Rightarrow> v | None \<Rightarrow> r_capacity r);
         l = (case HGET_last_refill (rdb c) fk of Some v \<Rightarrow> v | None \<Rightarrow> micro_seconds t);
         R = (if s < r_capacity r
              then min (r_capacity r) (s + (micro_seconds t - l) * r_refillRate r) else s);
         c1 = snd (redis_Allow r t key c)
     in fst (redis_Allow r t key c) = Inr (1 \<le> R) \<and>
        HGET_tokens (rdb c1) fk = Some (R - (if 1 \<le> R then 1 else 0)) \<and>
        HGET_last_refill (rdb c1) fk = Some (micro_seconds t) \<and>
        connected c1)) \<and>
   (capacity tb = of_nat n \<and> tokens tb = capacity tb \<and> 0 \<le> refillRate tb \<and> sorted ts \<and>
    (\<forall>t\<in>set ts. (t - hd ts) * refillRate tb < 1) \<and> length ts = n + j
    \<longrightarrow> fst (Allow_seq ts key tb) = replicate n True @ replicate j False) \<and>
   (connected c \<and> rdb c (keyPrefix r @ key) = None \<and> r_capacity r = of_nat n \<and>
    0 < r_refillRate r \<and> sorted ts \<and>
    (\<forall>t\<in>set ts. (micro_seconds t - micro_seconds (hd ts)) * r_refillRate r < 1) \<and>
    length ts = n + j
    \<longrightarrow> fst (redis_Allow_seq r ts key c) = map Inr (replicate n True @ replicate j False))"
proof (intro conjI impI)
  show "let R = (if tokens tb < capacity tb
             then min (capacity tb) (tokens tb + (now - lastRefillTime tb) * refillRate tb)
             else tokens tb)
    in Allow now key tb =
         (1 \<le> R, tb\<lparr>tokens := R - (if 1 \<le> R then 1 else 0), lastRefillTime := now\<rparr>)"
    by (simp add: Allow_def refill_def Let_def min_def)
next
  assume a: "0 < cap \<and> 0 < rate"
  have nz: "rate \<noteq> 0" and pos: "0 < idle_expiry cap rate"
    using a by (simp_all add: idle_expiry_pos)
  show "let s = (case HGET_tokens db k of Some v \<Rightarrow> v | None \<Rightarrow> cap);
         l = (case HGET_last_refill db k of Some v \<Rightarrow> v | None \<Rightarrow> now);
         R = (if s < cap then min cap (s + (now - l) * rate) else s);
         db1 = snd (allow_script k cap rate now db)
     in fst (allow_script k cap rate now db) = Inr (if 1 \<le> R then 1 else 0) \<and>
        HGET_tokens db1 k = Some (R - (if 1 \<le> R then 1 else 0)) \<and>
        HGET_last_refill db1 k = Some now"
    unfolding Let_def allow_script_result[OF nz] HGET_after_allow_script[OF nz pos]
      hash_after_allow_script[OF nz pos] stored_HGET lua_refill_min
    by simp
next
  assume a: "connected c \<and> 0 < r_capacity r \<and> 0 < r_refillRate r"
  have up: "connected c" and nz: "r_refillRate r \<noteq> 0"
    and pos: "0 < idle_expiry (r_capacity r) (r_refillRate r)"
    using a by (simp_all add: idle_expiry_pos)
  show "let fk = keyPrefix r @ key;
         s = (case HGET_tokens (rdb c) fk of Some v \<Rightarrow> v | None \<Rightarrow> r_capacity r);
         l = (case HGET_last_refill (rdb c) fk of Some v \<Rightarrow> v | None \<Rightarrow> micro_seconds t);
         R = (if s < r_capacity r
              then min (r_capacity r) (s + (micro_seconds t - l) * r_refillRate r) else s);
         c1 = snd (redis_Allow r t key c)
     in fst (redis_Allow r t key c) = Inr (1 \<le> R) \<and>
        HGET_tokens (rdb c1) fk = Some (R - (if 1 \<le> R then 1 else 0)) \<and>
        HGET_last_refill (rdb c1) fk = Some (micro_seconds t) \<and>
        connected c1"
    unfolding Let_def redis_Allow_connected[OF up nz] fst_conv snd_conv stored_HGET lua_refill_min
    using up
    by (simp add: HGET_after_allow_script[OF nz pos] hash_after_allow_script[OF nz pos]
        lua_refill_min Let_def)
next
  assume "capacity tb = of_nat n \<and> tokens tb = capacity tb \<and> 0 \<le> refillRate tb \<and> sorted ts \<and>
    (\<forall>t\<in>set ts. (t - hd ts) * refillRate tb < 1) \<and> length ts = n + j"
  then show "fst (Allow_seq ts key tb) = replicate n True @ replicate j False"
    by (intro burst_memory) simp_all
next
  assume "connected c \<and> rdb c (keyPrefix r @ key) = None \<and> r_capacity r = of_nat n \<and>
    0 < r_refillRate r \<and> sorted ts \<and>
    (\<forall>t\<in>set ts. (micro_seconds t - micro_seconds (hd ts)) * r_refillRate r < 1) \<and>
    length ts = n + j"
  then show "fst (redis_Allow_seq r ts key c) = map Inr (replicate n True @ replicate j False)"
    by (intro burst_redis) simp_all
qed

text \<open>
  The theorem at work: a bucket of capacity 4 with half a token, a quarter of a second
  after its last refill at 4 tokens per second, holds 3/2 tokens, permits the request and
  keeps 1/2; after two seconds it is capped at 4 and keeps 3. The same for the shared
  limiter, whose clock reading 1/4 + 1/4000000 counts as 1/4. A bucket of capacity 2
  admits two of three calls made within 1/5 of a second.
\<close>

theorem Allow_takes_one_token_or_none_witness:
  "Allow (1/4) ''10.0.0.1'' \<lparr>capacity = 4, refillRate = 4, tokens = 1/2, lastRefillTime = 0\<rparr> =
     (True, \<lparr>capacity = 4, refillRate = 4, tokens = 1/2, lastRefillTime = 1/4\<rparr>) \<and>
   Allow 2 ''10.0.0.1'' \<lparr>capacity = 4, refillRate = 4, tokens = 1/2, lastRefillTime = 0\<rparr> =
     (True, \<lparr>capacity = 4, refillRate = 4, tokens = 3, lastRefillTime = 2\<rparr>) \<and>
   Allow (1/10) ''10.0.0.1'' \<lparr>capacity = 4, refillRate = 4, tokens = 1/2, lastRefillTime = 0\<rparr> =
     (False, \<lparr>capacity = 4, refillRate = 4, tokens = 9/10, lastRefillTime = 1/10\<rparr>) \<and>
   (let c = \<lparr>connected = True,
             rdb = [''ratelimit:10.0.0.1'' \<mapsto>
                     \<lparr>h_tokens = Some (1/2), h_last_refill = Some 0, h_ttl = Some 2\<rparr>]\<rparr>;
        r = NewRedisTokenBucket 4 4 '''';
        c1 = snd (redis_Allow r (1/4 + 1/4000000) ''10.0.0.1'' c)
    in fst (redis_Allow r (1/4 + 1/4000000) ''10.0.0.1'' c) = Inr True \<and>
       HGET_tokens (rdb c1) ''ratelimit:10.0.0.1'' = Some (1/2) \<and>
       HGET_last_refill (rdb c1) ''ratelimit:10.0.0.1'' = Some (1/4)) \<and>
   fst (allow_script ''k'' 4 4 2 [''k'' \<mapsto> \<lparr>h_tokens = Some (1/2), h_last_refill = Some 0, h_ttl = None\<rparr>])
     = Inr 1 \<and>
   HGET_tokens (snd (allow_script ''k'' 4 4 2
       [''k'' \<mapsto> \<lparr>h_tokens = Some (1/2), h_last_refill = Some 0, h_ttl = None\<rparr>])) ''k'' = Some 3 \<and>
   fst (Allow_seq [0, 1/10, 1/5] ''10.0.0.1'' (NewTokenBucket 2 4 0)) = [True, True, False] \<and>
   fst (redis_Allow_seq (NewRedisTokenBucket 2 4 '''') [0, 1/10, 1/5] ''10.0.0.1''
          \<lparr>connected = True, rdb = Map.empty\<rparr>) = [Inr True, Inr True, Inr False]"
proof -
  let ?tb = "NewTokenBucket 2 4 0"
  let ?r = "NewRedisTokenBucket 2 4 ''''"
  let ?c = "\<lparr>connected = True, rdb = Map.empty\<rparr>"
  let ?ts = "[0, 1/10, 1/5] :: rat list"
  let ?tb1 = "\<lparr>capacity = 4, refillRate = 4, tokens = 1/2, lastRefillTime = 0\<rparr>"
  let ?db1 = "[''k'' \<mapsto> \<lparr>h_tokens = Some (1/2), h_last_refill = Some 0, h_ttl = None\<rparr>]"
  let ?r1 = "NewRedisTokenBucket 4 4 ''''"
  let ?c1 = "\<lparr>connected = True,
             rdb = [''ratelimit:10.0.0.1'' \<mapsto>
                     \<lparr>h_tokens = Some (1/2), h_last_refill = Some 0, h_ttl = Some 2\<rparr>]\<rparr>"
  have m: "micro_seconds 0 = 0" "micro_seconds (1/10) = 1/10" "micro_seconds (1/5) = 1/5"
    "micro_seconds (1/4 + 1/4000000) = 1/4"
    by code_simp+
  note T = Allow_takes_one_token_or_none[of ?tb 0 "''10.0.0.1''" 4 4 ?db1 "''k''" ?c ?r 0 2 ?ts 1]
  note U = Allow_takes_one_token_or_none[of ?tb1 "1/4" "''10.0.0.1''" 4 4 ?db1 "''k''" ?c1 ?r1
      "1/4 + 1/4000000" 0 "[]" 0]
  note V = Allow_takes_one_token_or_none[of ?tb1 2 "''10.0.0.1''" 4 4 ?db1 "''k''" ?c1 ?r1
      "1/4 + 1/4000000" 0 "[]" 0]
  note W = Allow_takes_one_token_or_none[of ?tb1 "1/10" "''10.0.0.1''" 4 4 ?db1 "''k''" ?c1 ?r1
      "1/4 + 1/4000000" 0 "[]" 0]
  have h1: "capacity ?tb = of_nat 2 \<and> tokens ?tb = capacity ?tb \<and> 0 \<le> refillRate ?tb \<and> sorted ?ts \<and>
    (\<forall>t\<in>set ?ts. (t - hd ?ts) * refillRate ?tb < 1) \<and> length ?ts = 2 + 1"
    by (simp add: NewTokenBucket_def)
  have h2: "connected ?c \<and> rdb ?c (keyPrefix ?r @ ''10.0.0.1'') = None \<and> r_capacity ?r = of_nat 2 \<and>
    0 < r_refillRate ?r \<and> sorted ?ts \<and>
    (\<forall>t\<in>set ?ts. (micro_seconds t - micro_seconds (hd ?ts)) * r_refillRate ?r < 1) \<and>
    length ?ts = 2 + 1"
    by (simp add: NewRedisTokenBucket_def m)
  have h3: "(0::rat) < 4 \<and> (0::rat) < 4" by simp
  have h4: "connected ?c1 \<and> 0 < r_capacity ?r1 \<and> 0 < r_refillRate ?r1"
    by (simp add: NewRedisTokenBucket_def)
  have k: "keyPrefix ?r1 @ ''10.0.0.1'' = ''ratelimit:10.0.0.1''"
    "r_capacity ?r1 = 4" "r_refillRate ?r1 = 4"
    by (simp_all add: NewRedisTokenBucket_def)
  have g: "HGET_tokens (rdb ?c1) ''ratelimit:10.0.0.1'' = Some (1/2)"
    "HGET_last_refill (rdb ?c1) ''ratelimit:10.0.0.1'' = Some 0"
    "HGET_tokens ?db1 ''k'' = Some (1/2)" "HGET_last_refill ?db1 ''k'' = Some 0"
    by (simp_all add: HGET_tokens_def HGET_last_refill_def hash_at_def)
  have A: "Allow (1/4) ''10.0.0.1'' ?tb1 = (True, ?tb1\<lparr>tokens := 1/2, lastRefillTime := 1/4\<rparr>)"
    using U by (simp add: Let_def)
  have B: "Allow 2 ''10.0.0.1'' ?tb1 = (True, ?tb1\<lparr>tokens := 3, lastRefillTime := 2\<rparr>)"
    using V by (simp add: Let_def)
  have C: "Allow (1/10) ''10.0.0.1'' ?tb1 = (False, ?tb1\<lparr>tokens := 9/10, lastRefillTime := 1/10\<rparr>)"
    using W by (simp add: Let_def)
  have D: "fst (redis_Allow ?r1 (1/4 + 1/4000000) ''10.0.0.1'' ?c1) = Inr True \<and>
       HGET_tokens (rdb (snd (redis_Allow ?r1 (1/4 + 1/4000000) ''10.0.0.1'' ?c1))) ''ratelimit:10.0.0.1'' = Some (1/2) \<and>
       HGET_last_refill (rdb (snd (redis_Allow ?r1 (1/4 + 1/4000000) ''10.0.0.1'' ?c1))) ''ratelimit:10.0.0.1'' = Some (1/4)"
    using U h4 unfolding k m Let_def g by simp
  have E: "fst (allow_script ''k'' 4 4 2 ?db1) = Inr 1 \<and>
           HGET_tokens (snd (allow_script ''k'' 4 4 2 ?db1)) ''k'' = Some 3"
    using V h3 unfolding Let_def g by simp
  have F: "fst (Allow_seq ?ts ''10.0.0.1'' ?tb) = [True, True, False] \<and>
           fst (redis_Allow_seq ?r ?ts ''10.0.0.1'' ?c) = [Inr True, Inr True, Inr False]"
  proof -
    note T4 = T[THEN conjunct2, THEN conjunct2, THEN conjunct2]
    have "fst (Allow_seq ?ts ''10.0.0.1'' ?tb) = replicate 2 True @ replicate 1 False"
      using T4[THEN conjunct1] h1 by (rule mp)
    moreover have "fst (redis_Allow_seq ?r ?ts ''10.0.0.1'' ?c) =
        map Inr (replicate 2 True @ replicate 1 False)"
      using T4[THEN conjunct2] h2 by (rule mp)
    ultimately show ?thesis by (simp add: numeral_2_eq_2)
  qed
  from A B C D E F show ?thesis by (simp add: Let_def)
qed







text \<open>
  Claim C5, as amended. The local limiter is one bucket, whatever the key: \<^verbatim>\<open>Allow\<close> and
  \<^verbatim>\<open>Refill\<close> do the same for every key, and the bucket starts full, stamped with the time
  of its construction. It is the shared limiter that keeps a bucket per key: \<^verbatim>\<open>Allow\<close> and
  \<^verbatim>\<open>Refill\<close> on one key leave the hash of every other key as it is, and \<^verbatim>\<open>Available\<close>
  changes nothing. With the connection up and a positive capacity and refill rate, a key
  never seen is at full capacity: \<^verbatim>\<open>Allow\<close> permits the request if the capacity is at least
  1 and stores the capacity (less the token it takes) with \<^verbatim>\<open>last_refill\<close> its clock reading
  in whole microseconds; \<^verbatim>\<open>Available\<close> reports the capacity in whole tokens and stores
  nothing.
\<close>

theorem buckets_per_key:
  "Allow now key tb = Allow now key' tb \<and>
   Refill key n tb = Refill key' n tb \<and>
   tokens (NewTokenBucket cap rate t0) = cap \<and>
   lastRefillTime (NewTokenBucket cap rate t0) = t0 \<and>
   (key' \<noteq> key \<longrightarrow>
      rdb (snd (redis_Allow r now key c)) (keyPrefix r @ key') = rdb c (keyPrefix r @ key') \<and>
      rdb (snd (redis_Refill r key n c)) (keyPrefix r @ key') = rdb c (keyPrefix r @ key')) \<and>
   snd (red_step r now key OpAvailable c) = c \<and>
   (connected c \<and> 0 < r_capacity r \<and> 0 < r_refillRate r \<and> rdb c (keyPrefix r @ key) = None \<longrightarrow>
      fst (redis_Allow r now key c) = Inr (1 \<le> r_capacity r) \<and>
      HGET_tokens (rdb (snd (redis_Allow r now key c))) (keyPrefix r @ key) =
        Some (r_capacity r - (if 1 \<le> r_capacity r then 1 else 0)) \<and>
      HGET_last_refill (rdb (snd (redis_Allow r now key c))) (keyPrefix r @ key) =
        Some (micro_seconds now) \<and>
      redis_Available r now key c = Inr (of_int \<lfloor>r_capacity r\<rfloor>))"
proof (intro conjI impI)
  show "Allow now key tb = Allow now key' tb" by (simp add: Allow_def)
  show "Refill key n tb = Refill key' n tb" by (simp add: Refill_def)
  show "tokens (NewTokenBucket cap rate t0) = cap" by (simp add: NewTokenBucket_def)
  show "lastRefillTime (NewTokenBucket cap rate t0) = t0" by (simp add: NewTokenBucket_def)
  show "snd (red_step r now key OpAvailable c) = c" by (simp split: sum.splits)
next
  assume "key' \<noteq> key"
  then have ne: "keyPrefix r @ key' \<noteq> keyPrefix r @ key" by simp
  show "rdb (snd (redis_Allow r now key c)) (keyPrefix r @ key') = rdb c (keyPrefix r @ key')"
    using allow_script_other[OF ne] by (simp add: redis_Allow_def split_beta Let_def)
  show "rdb (snd (redis_Refill r key n c)) (keyPrefix r @ key') = rdb c (keyPrefix r @ key')"
    using refill_script_other[OF ne] by (simp add: redis_Refill_def split_beta)
next
  assume a: "connected c \<and> 0 < r_capacity r \<and> 0 < r_refillRate r \<and> rdb c (keyPrefix r @ key) = None"
  let ?k = "keyPrefix r @ key"
  have up: "connected c" and nz: "r_refillRate r \<noteq> 0"
    and pos: "0 < idle_expiry (r_capacity r) (r_refillRate r)"
    using a by (simp_all add: idle_expiry_pos)
  have g: "HGET_tokens (rdb c) ?k = None" "HGET_last_refill (rdb c) ?k = None"
    using a by (simp_all add: HGET_tokens_def HGET_last_refill_def hash_at_def empty_hash_def)
  have s: "stored_tokens (r_capacity r) (rdb c ?k) = r_capacity r" "stored_last (rdb c ?k) = None"
    using a by (simp_all add: stored_tokens_def stored_last_def)
  show "fst (redis_Allow r now key c) = Inr (1 \<le> r_capacity r)"
    unfolding redis_Allow_connected[OF up nz] s by (simp add: lua_refill_zero)
  show "HGET_tokens (rdb (snd (redis_Allow r now key c))) ?k =
        Some (r_capacity r - (if 1 \<le> r_capacity r then 1 else 0))"
    unfolding redis_Allow_connected[OF up nz]
    by (simp add: HGET_after_allow_script[OF nz pos] g lua_refill_zero Let_def)
  show "HGET_last_refill (rdb (snd (redis_Allow r now key c))) ?k = Some (micro_seconds now)"
    unfolding redis_Allow_connected[OF up nz]
    by (simp add: hash_after_allow_script[OF nz pos])
  show "redis_Available r now key c = Inr (of_int \<lfloor>r_capacity r\<rfloor>)"
    using a by (simp add: redis_Available_def available_script_def g integer_reply_def)
qed

text \<open>
  The theorem at work: an \<^verbatim>\<open>Allow\<close> for \<^verbatim>\<open>user-a\<close> on the shared limiter leaves \<^verbatim>\<open>user-b\<close>
  unseen, and \<^verbatim>\<open>user-b\<close> is then permitted from a full bucket of its own; the local \<^verbatim>\<open>Allow\<close>
  does the same for both keys.
\<close>

theorem buckets_per_key_witness:
  "rdb (snd (redis_Allow (NewRedisTokenBucket 2 1 '''') 0 ''user-a''
          \<lparr>connected = True, rdb = Map.empty\<rparr>)) ''ratelimit:user-b'' = None \<and>
   fst (redis_Allow (NewRedisTokenBucket 2 1 '''') 0 ''user-b''
          (snd (redis_Allow (NewRedisTokenBucket 2 1 '''') 0 ''user-a''
             \<lparr>connected = True, rdb = Map.empty\<rparr>))) = Inr True \<and>
   HGET_tokens (rdb (snd (redis_Allow (NewRedisTokenBucket 2 1 '''') 0 ''user-a''
          \<lparr>connected = True, rdb = Map.empty\<rparr>))) ''ratelimit:user-a'' = Some 1 \<and>
   Allow 0 ''user-a'' (NewTokenBucket 2 1 0) = Allow 0 ''user-b'' (NewTokenBucket 2 1 0)"
proof -
  let ?r = "NewRedisTokenBucket 2 1 ''''"
  let ?c = "\<lparr>connected = True, rdb = Map.empty\<rparr>"
  let ?c1 = "snd (redis_Allow ?r 0 ''user-a'' ?c)"
  note T = buckets_per_key[of 0 "''user-a''" "NewTokenBucket 2 1 0" "''user-b''" 0 2 1 0 ?r ?c]
  note U = buckets_per_key[of 0 "''user-b''" "NewTokenBucket 2 1 0" "''user-a''" 0 2 1 0 ?r ?c1]
  have ne: "''user-b'' \<noteq> ''user-a''" by simp
  have k: "keyPrefix ?r @ ''user-b'' = ''ratelimit:user-b''"
    "keyPrefix ?r @ ''user-a'' = ''ratelimit:user-a''" by (simp_all add: NewRedisTokenBucket_def)
  have first: "rdb ?c1 (keyPrefix ?r @ ''user-b'') = None" using T ne by simp
  have conn: "connected ?c1" by (simp add: redis_Allow_def split_beta Let_def)
  have cap: "r_capacity ?r = 2" "r_refillRate ?r = 1" by (simp_all add: NewRedisTokenBucket_def)
  have h: "connected ?c \<and> 0 < r_capacity ?r \<and> 0 < r_refillRate ?r \<and>
           rdb ?c (keyPrefix ?r @ ''user-a'') = None"
    by (simp add: NewRedisTokenBucket_def)
  have h': "connected ?c1 \<and> 0 < r_capacity ?r \<and> 0 < r_refillRate ?r \<and>
           rdb ?c1 (keyPrefix ?r @ ''user-b'') = None"
    using first conn by (simp add: cap)
  from T U ne first h h' show ?thesis unfolding k cap by simp
qed

text \<open>
  Claim C5 as stated fails on the local limiter: with capacity 1, one \<^verbatim>\<open>Allow\<close> for
  \<^verbatim>\<open>user-a\<close> empties the bucket that \<^verbatim>\<open>user-b\<close>, never seen before, is then refused on.
  On the shared limiter, which does keep a bucket per key, a key first observed by
  \<^verbatim>\<open>Available\<close> is not started at all: nothing is stored, and a capacity of 5/2 is reported
  as 2; a key first observed by \<^verbatim>\<open>Allow\<close> half a microsecond after time 0 is stamped with 0.
\<close>

theorem local_bucket_shared_by_all_keys:
  "fst (mem_run [(0, ''user-a'', OpAllow), (0, ''user-b'', OpAllow), (0, ''user-b'', OpAvailable)]
         (NewTokenBucket 1 1 0)) = [ResAllow True, ResAllow False, ResAvailable 0] \<and>
   snd (Allow 0 ''user-a'' (NewTokenBucket 1 1 0)) \<noteq> NewTokenBucket 1 1 0 \<and>
   red_step (NewRedisTokenBucket (5/2) 1 '''') 1 ''user-b'' OpAvailable
       \<lparr>connected = True, rdb = Map.empty\<rparr> =
     (ResAvailable 2, \<lparr>connected = True, rdb = Map.empty\<rparr>) \<and>
   HGET_last_refill (rdb (snd (redis_Allow (NewRedisTokenBucket (5/2) 1 '''') (1/2000000) ''user-b''
       \<lparr>connected = True, rdb = Map.empty\<rparr>))) ''ratelimit:user-b'' = Some 0"
proof -
  have m: "micro_seconds 1 = 1" "micro_seconds (1/2000000) = 0" "integer_reply (5/2) = 2"
    "idle_expiry (5/2) 1 = 4"
    by code_simp+
  show ?thesis
    by (simp add: NewTokenBucket_def Allow_def Available_def refill_def Let_def
        NewRedisTokenBucket_def redis_Allow_def redis_Available_def allow_script_def
        available_script_def lua_refill_def HGET_tokens_def HGET_last_refill_def HMSET_def
        EXPIRE_def hash_at_def empty_hash_def expire_call_def m)
qed

text \<open>
  Claim C10, as amended. With a positive capacity and a positive refill rate, the Allow
  script and the Refill script end by setting the key's expiry to
  \<open>\<lceil>capacity / refill_rate\<rceil> + 1\<close> seconds, which is at least 2; so do the Go calls
  \<^verbatim>\<open>Allow\<close> and \<^verbatim>\<open>Refill\<close> on a live connection. \<^verbatim>\<open>Available\<close> changes nothing in the store,
  the expiry included.
\<close>

theorem expiry_reset_by_Allow_and_Refill:
  "(0 < cap \<and> 0 < rate \<longrightarrow>
      map_option h_ttl (snd (allow_script k cap rate now db) k) = Some (Some (\<lceil>cap / rate\<rceil> + 1)) \<and>
      map_option h_ttl (snd (refill_script k n cap rate db) k) = Some (Some (\<lceil>cap / rate\<rceil> + 1)) \<and>
      2 \<le> \<lceil>cap / rate\<rceil> + 1) \<and>
   (connected c \<and> 0 < r_capacity r \<and> 0 < r_refillRate r \<longrightarrow>
      map_option h_ttl (rdb (snd (redis_Allow r now key c)) (keyPrefix r @ key)) =
        Some (Some (\<lceil>r_capacity r / r_refillRate r\<rceil> + 1)) \<and>
      map_option h_ttl (rdb (snd (redis_Refill r key n c)) (keyPrefix r @ key)) =
        Some (Some (\<lceil>r_capacity r / r_refillRate r\<rceil> + 1))) \<and>
   snd (red_step r now key OpAvailable c) = c"
proof (intro conjI impI)
  assume a: "0 < cap \<and> 0 < rate"
  have nz: "rate \<noteq> 0" and pos: "0 < idle_expiry cap rate"
    using a by (simp_all add: idle_expiry_pos)
  show "map_option h_ttl (snd (allow_script k cap rate now db) k) = Some (Some (\<lceil>cap / rate\<rceil> + 1))"
    by (simp add: allow_script_ttl[OF nz pos] idle_expiry_def)
  show "map_option h_ttl (snd (refill_script k n cap rate db) k) = Some (Some (\<lceil>cap / rate\<rceil> + 1))"
    by (simp add: refill_script_ttl[OF nz pos] idle_expiry_def)
  have "0 < cap / rate" using a by simp
  then have "0 < \<lceil>cap / rate\<rceil>" by (simp add: ceiling_less_iff)
  then show "2 \<le> \<lceil>cap / rate\<rceil> + 1" by simp
next
  assume a: "connected c \<and> 0 < r_capacity r \<and> 0 < r_refillRate r"
  have up: "connected c" and nz: "r_refillRate r \<noteq> 0"
    and pos: "0 < idle_expiry (r_capacity r) (r_refillRate r)"
    using a by (simp_all add: idle_expiry_pos)
  show "map_option h_ttl (rdb (snd (redis_Allow r now key c)) (keyPrefix r @ key)) =
        Some (Some (\<lceil>r_capacity r / r_refillRate r\<rceil> + 1))"
    by (simp add: redis_Allow_connected[OF up nz] allow_script_ttl[OF nz pos] idle_expiry_def)
  show "map_option h_ttl (rdb (snd (redis_Refill r key n c)) (keyPrefix r @ key)) =
        Some (Some (\<lceil>r_capacity r / r_refillRate r\<rceil> + 1))"
    by (simp add: redis_Refill_connected[OF up nz] refill_script_ttl[OF nz pos] idle_expiry_def)
next
  show "snd (red_step r now key OpAvailable c) = c" by (simp split: sum.splits)
qed

theorem expiry_reset_by_Allow_and_Refill_witness:
  "map_option h_ttl (snd (allow_script ''ratelimit:10.0.0.1'' 4 4 0 Map.empty) ''ratelimit:10.0.0.1'') = Some (Some 2) \<and>
   map_option h_ttl (snd (refill_script ''ratelimit:10.0.0.1'' 4 4 4 Map.empty) ''ratelimit:10.0.0.1'') = Some (Some 2) \<and>
   map_option h_ttl (rdb (snd (redis_Allow (NewRedisTokenBucket 4 4 '''') 0 ''10.0.0.1''
       \<lparr>connected = True, rdb = Map.empty\<rparr>)) ''ratelimit:10.0.0.1'') = Some (Some 2)"
proof -
  let ?r = "NewRedisTokenBucket 4 4 ''''"
  let ?c = "\<lparr>connected = True, rdb = Map.empty\<rparr>"
  note T = expiry_reset_by_Allow_and_Refill[of 4 4 "''ratelimit:10.0.0.1''" 0 Map.empty 4 ?c ?r "''10.0.0.1''"]
  have h1: "(0::rat) < 4 \<and> (0::rat) < 4" by simp
  have h2: "connected ?c \<and> 0 < r_capacity ?r \<and> 0 < r_refillRate ?r"
    by (simp add: NewRedisTokenBucket_def)
  have k: "keyPrefix ?r @ ''10.0.0.1'' = ''ratelimit:10.0.0.1''"
    by (simp add: NewRedisTokenBucket_def)
  have q: "r_capacity ?r = 4" "r_refillRate ?r = 4" by (simp_all add: NewRedisTokenBucket_def)
  from T h1 h2 show ?thesis unfolding k q by simp
qed

text \<open>
  Claim C10 as stated fails on \<^verbatim>\<open>Available\<close>: on a key never seen it stores nothing, so no
  expiry is set; on a key with one second left to live it leaves that second, where
  \<^verbatim>\<open>Allow\<close> resets the expiry to 2.
\<close>

theorem Available_sets_no_expiry:
  "(let r = NewRedisTokenBucket 4 4 '''';
        fresh = \<lparr>connected = True, rdb = Map.empty\<rparr>;
        aged = \<lparr>connected = True,
                rdb = [''ratelimit:10.0.0.1'' \<mapsto>
                        \<lparr>h_tokens = Some 3, h_last_refill = Some 0, h_ttl = Some 1\<rparr>]\<rparr>
    in idle_expiry 4 4 = 2 \<and>
       redis_Available r 1 ''10.0.0.1'' fresh = Inr 4 \<and>
       rdb (snd (red_step r 1 ''10.0.0.1'' OpAvailable fresh)) ''ratelimit:10.0.0.1'' = None \<and>
       redis_Available r 1 ''10.0.0.1'' aged = Inr 4 \<and>
       map_option h_ttl (rdb (snd (red_step r 1 ''10.0.0.1'' OpAvailable aged)) ''ratelimit:10.0.0.1'')
         \<noteq> Some (Some (idle_expiry 4 4)) \<and>
       map_option h_ttl (rdb (snd (red_step r 1 ''10.0.0.1'' OpAllow aged)) ''ratelimit:10.0.0.1'')
         = Some (Some (idle_expiry 4 4)))"
  by (simp add: Let_def NewRedisTokenBucket_def redis_Allow_def redis_Available_def
      allow_script_def available_script_def lua_refill_def HGET_tokens_def
      HGET_last_refill_def HMSET_def EXPIRE_def hash_at_def empty_hash_def idle_expiry_def
      expire_call_def micro_seconds_def UnixMicro_def integer_reply_def)

section \<open>Claims about the trust tracker\<close>

text \<open>
  Claim C6. For a tracker made by \<^verbatim>\<open>New\<close> and any history of \<^verbatim>\<open>RecordSuccess\<close> and
  \<^verbatim>\<open>RecordFailure\<close> calls whose clock readings do not decrease up to \<open>now\<close>:
  \<^verbatim>\<open>IsTrusted(payer)\<close> holds if and only if the successes on record for the payer (all those
  since the payer's last failure, whether \<^verbatim>\<open>cleanup\<close> has pruned them or not) with a
  timestamp strictly newer than \<open>now - window\<close> number at least the threshold; the same
  holds of the timestamps the tracker stores. In particular, after exactly threshold
  successes, all within the window, the payer is trusted; and after a \<^verbatim>\<open>RecordFailure\<close>, at
  any time, \<^verbatim>\<open>RecentPayments\<close> is 0 and \<^verbatim>\<open>IsTrusted\<close> is false (the threshold of a tracker
  made by \<^verbatim>\<open>New\<close> is positive).
\<close>

theorem trusted_iff_enough_recent_successes:
  assumes "sorted (readings evs @ [now])"
  shows "(let t = track_all evs (New cfg); W = Window (config t); th = Threshold (config t)
          in (IsTrusted t now payer \<longleftrightarrow>
                th \<le> int (length (filter (\<lambda>ts. now - W < ts) (recorded [] evs payer)))) \<and>
             (IsTrusted t now payer \<longleftrightarrow>
                th \<le> int (length (filter (\<lambda>ts. now - W < ts) (payments_of t payer)))) \<and>
             (int (length (recorded [] evs payer)) = th \<and>
              (\<forall>ts\<in>set (recorded [] evs payer). now - W < ts) \<longrightarrow> IsTrusted t now payer) \<and>
             RecentPayments (RecordFailure t payer) now' payer = 0 \<and>
             \<not> IsTrusted (RecordFailure t payer) now' payer \<and>
             0 < th \<and> 0 < W)"
proof -
  let ?t = "track_all evs (New cfg)"
  let ?W = "Window (config ?t)"
  let ?th = "Threshold (config ?t)"
  have cfg: "config ?t = config (New cfg)" by (rule track_all_config)
  have pos: "0 < ?th" "0 < ?W" unfolding cfg by (rule New_config)+
  have hist: "countRecent ?t now payer =
                int (length (filter (\<lambda>ts. now - ?W < ts) (recorded [] evs payer)))"
    unfolding cfg using assms by (rule recorded_history)
  have a: "IsTrusted ?t now payer \<longleftrightarrow>
             ?th \<le> int (length (filter (\<lambda>ts. now - ?W < ts) (recorded [] evs payer)))"
    unfolding IsTrusted_def hist by simp
  have b: "IsTrusted ?t now payer \<longleftrightarrow>
             ?th \<le> int (length (filter (\<lambda>ts. now - ?W < ts) (payments_of ?t payer)))"
    by (simp add: IsTrusted_def countRecent_def Let_def)
  have c: "int (length (recorded [] evs payer)) = ?th \<and>
           (\<forall>ts\<in>set (recorded [] evs payer). now - ?W < ts) \<longrightarrow> IsTrusted ?t now payer"
  proof
    assume h: "int (length (recorded [] evs payer)) = ?th \<and>
               (\<forall>ts\<in>set (recorded [] evs payer). now - ?W < ts)"
    then have "filter (\<lambda>ts. now - ?W < ts) (recorded [] evs payer) = recorded [] evs payer"
      by (simp add: filter_id_conv)
    then show "IsTrusted ?t now payer" using h unfolding a by simp
  qed
  have d: "RecentPayments (RecordFailure ?t payer) now' payer = 0"
    by (simp add: RecentPayments_def countRecent_def Let_def payments_of_RecordFailure)
  have e: "\<not> IsTrusted (RecordFailure ?t payer) now' payer"
    using pos(1)
    by (simp add: IsTrusted_def countRecent_def Let_def payments_of_RecordFailure
        RecordFailure_config)
  show ?thesis unfolding Let_def using a b c d e pos by blast
qed

theorem trusted_iff_enough_recent_successes_witness:
  "IsTrusted (track_all [EvSuccess ''0xab'' 1 1, EvSuccess ''0xab'' 2 2, EvSuccess ''0xab'' 3 3]
               (New \<lparr>Threshold = 3, Window = Hour\<rparr>)) 4 ''0xab'' \<and>
   \<not> IsTrusted (track_all [EvSuccess ''0xab'' 1 1, EvSuccess ''0xab'' 2 2]
               (New \<lparr>Threshold = 3, Window = Hour\<rparr>)) 4 ''0xab'' \<and>
   RecentPayments (RecordFailure
      (track_all [EvSuccess ''0xab'' 1 1, EvSuccess ''0xab'' 2 2, EvSuccess ''0xab'' 3 3]
               (New \<lparr>Threshold = 3, Window = Hour\<rparr>)) ''0xab'') 5 ''0xab'' = 0"
proof -
  let ?cfg = "\<lparr>Threshold = 3, Window = Hour\<rparr>"
  let ?e3 = "[EvSuccess ''0xab'' 1 1, EvSuccess ''0xab'' 2 2, EvSuccess ''0xab'' 3 3]"
  let ?e2 = "[EvSuccess ''0xab'' 1 1, EvSuccess ''0xab'' 2 2]"
  have s3: "sorted (readings ?e3 @ [4])" by simp
  have s2: "sorted (readings ?e2 @ [4])" by simp
  have c: "config (track_all ?e3 (New ?cfg)) = ?cfg" "config (track_all ?e2 (New ?cfg)) = ?cfg"
    unfolding track_all_config by (simp_all add: New_def Let_def Hour_def)
  note T3 = trusted_iff_enough_recent_successes[OF s3, of ?cfg "''0xab''" 5]
  note T2 = trusted_iff_enough_recent_successes[OF s2, of ?cfg "''0xab''" 5]
  from T3 T2 show ?thesis unfolding Let_def c by (simp add: Hour_def)
qed

section \<open>Claims about the settlement queue\<close>

text \<open>
  Claim C7. In every interleaving of request handlers enqueueing and the one worker
  taking its turns, from a new queue: the jobs settled so far, followed by the jobs still
  in the channel, are the jobs the channel accepted, in the order it accepted them (the
  worker settles in enqueue order); between leaving one settlement and entering the next
  at least the delay of 3 s passes; and the worker slept nothing before its first
  settlement and at least 3 s before every later one. The delay is the constant
  \<^verbatim>\<open>3 * time.Second\<close> of \<^verbatim>\<open>worker\<close>. The model takes from Go that a channel delivers in the
  order of the sends and that \<^verbatim>\<open>time.Sleep\<close> sleeps at least the time asked.
\<close>

theorem settlements_in_order_and_spaced:
  "(let sq = fst (queue_run evs (NewSettlementQueue n t0, tr))
    in map fst (settled sq) @ jobs sq = sent sq \<and>
       (\<forall>i. Suc i < length (settled sq) \<longrightarrow>
          left_of (settled sq ! i) + 3 * 1000000000 \<le> entered_of (settled sq ! Suc i)) \<and>
       (\<forall>i<length (settled sq).
          if i = 0 then slept_of (settled sq ! i) = 0
          else 3 * 1000000000 \<le> slept_of (settled sq ! i)))"
proof -
  let ?sq = "fst (queue_run evs (NewSettlementQueue n t0, tr))"
  have "worker_inv (fst (NewSettlementQueue n t0, tr))" by (simp add: New_inv)
  then have "worker_inv ?sq" by (rule queue_run_inv)
  then have i: "map fst (settled ?sq) @ jobs ?sq = sent ?sq" "spaced (settled ?sq)"
    "delays_kept (settled ?sq)"
    by (simp_all add: worker_inv_def)
  have d: "settle_delay = 3 * 1000000000" by (simp add: settle_delay_def)
  show ?thesis
    unfolding Let_def
    using i(1) spaced_nth[OF i(2)] delays_kept_nth[OF i(3)] unfolding d by blast
qed

theorem settlements_in_order_and_spaced_witness:
  "(let job = (\<lambda>w. \<lparr>PaymentPayload = ''p'', PaymentRequirements = ''q'', WalletAddr = w, QueuedAt = 0\<rparr>);
        ok = \<lparr>Success = True, Transaction = ''0x1'', ErrorReason = ''''\<rparr>;
        sq = fst (queue_run
               [Produce 0 (job ''0xa''), Produce 5 (job ''0xb''),
                Consume \<lparr>idle = 1, extra = 2, took = 10, outcome = ok\<rparr>,
                Produce 7 (job ''0xc''),
                Consume \<lparr>idle = 0, extra = 4, took = 10, outcome = ok\<rparr>]
               (NewSettlementQueue 100 0, None))
    in map (\<lambda>x. WalletAddr (fst x)) (settled sq) = [''0xa'', ''0xb''] \<and>
       map WalletAddr (jobs sq) = [''0xc''] \<and>
       map WalletAddr (sent sq) = [''0xa'', ''0xb'', ''0xc''] \<and>
       left_of (settled sq ! 0) + 3 * 1000000000 \<le> entered_of (settled sq ! Suc 0) \<and>
       slept_of (settled sq ! 0) = 0 \<and>
       slept_of (settled sq ! Suc 0) = 3000000004)"
proof -
  let ?job = "\<lambda>w. \<lparr>PaymentPayload = ''p'', PaymentRequirements = ''q'', WalletAddr = w, QueuedAt = 0\<rparr>"
  let ?ok = "\<lparr>Success = True, Transaction = ''0x1'', ErrorReason = ''''\<rparr>"
  let ?evs = "[Produce 0 (?job ''0xa''), Produce 5 (?job ''0xb''),
                Consume \<lparr>idle = 1, extra = 2, took = 10, outcome = ?ok\<rparr>,
                Produce 7 (?job ''0xc''),
                Consume \<lparr>idle = 0, extra = 4, took = 10, outcome = ?ok\<rparr>]"
  let ?sq = "fst (queue_run ?evs (NewSettlementQueue 100 0, None))"
  have run: "settled ?sq =
      [(\<lparr>PaymentPayload = ''p'', PaymentRequirements = ''q'', WalletAddr = ''0xa'', QueuedAt = 0\<rparr>, 0, 1, 11),
       (\<lparr>PaymentPayload = ''p'', PaymentRequirements = ''q'', WalletAddr = ''0xb'', QueuedAt = 5\<rparr>,
        3000000004, 3000000015, 3000000025)]"
    "map WalletAddr (jobs ?sq) = [''0xc'']"
    "map WalletAddr (sent ?sq) = [''0xa'', ''0xb'', ''0xc'']"
    by (simp_all add: NewSettlementQueue_def Enqueue_def worker_turn_def Let_def
        settle_delay_def processSettlement_def)
  have len: "Suc 0 < length (settled ?sq)" unfolding run by simp
  note T = settlements_in_order_and_spaced[of ?evs 100 0 None, unfolded Let_def]
  from T len have sp: "left_of (settled ?sq ! 0) + 3 * 1000000000 \<le> entered_of (settled ?sq ! Suc 0)"
    by blast
  show ?thesis unfolding Let_def using sp run
    by (simp add: slept_of_def)
qed

section \<open>Claims about the admission pipeline\<close>

text \<open>
  Claim C8. On the synchronous path (\<^verbatim>\<open>Allow\<close> refused, a payment header is there, the
  payment is verified, the payer is not served optimistically) the middleware asks for the
  settlement first. If it succeeds, the bucket of the client is refilled and, the refill
  done, the success is recorded for the payer in the tracker (if one is configured): the
  clock reading is appended to the payer's timestamps, of which those newer than the
  window are kept, and nothing else in the tracker changes; then the request goes on to
  the handler. Should the limiter fail to refill, the answer is 500 and nothing is
  recorded. If the settlement fails, the answer is 402 with the error
  \<^verbatim>\<open>Settlement failed\<close> and the settlement's reason, and the server is as \<^verbatim>\<open>Allow\<close> left it:
  no refill, the tracker untouched. The refill adds exactly the configured capacity to
  the count, whatever the count: in the local bucket, which never fails, and in the
  shared limiter's hash when the connection is up (capacity and refill rate positive);
  when the connection is down at the refill, the shared limiter fails and changes nothing.
\<close>

theorem synchronous_path_settles_then_refills:
  assumes "limiter_Allow (at_Allow env) (ClientIP req)
             (with_link (link_at_Allow env) (the_limiter s)) = (Inr False, lim1)"
    and "payment_header req \<noteq> ''''"
    and "ProcessHTTPRequest env (payment_header req) = ResultPaymentVerified payload reqs"
    and "\<not> optimistic (s\<lparr>the_limiter := lim1\<rparr>) (at_IsTrusted env)
             (extractWalletAddress (lib env) (payment_header req))"
  shows "(Success (ProcessSettlement env payload reqs) \<longrightarrow>
            (case limiter_Refill (ClientIP req) (cfg_capacity s)
                    (with_link (link_at_Refill env) lim1) of
               (None, lim2) \<Rightarrow>
                 hybridRateLimitPaymentMiddleware env req s =
                   (Next,
                    s\<lparr>the_limiter := lim2,
                      trustTracker :=
                        map_option
                          (\<lambda>t. t\<lparr>payments :=
                                   (payments t)
                                     (extractWalletAddress (lib env) (payment_header req) \<mapsto>
                                        filter (\<lambda>ts. at_cleanup env - Window (config t) < ts)
                                          (payments_of t
                                             (extractWalletAddress (lib env) (payment_header req))
                                           @ [at_RecordSuccess env]))\<rparr>)
                          (trustTracker s)\<rparr>)
             | (Some err, lim2) \<Rightarrow>
                 hybridRateLimitPaymentMiddleware env req s =
                   (AbortJSON 500 [(''error'', ''Refill error'')], s\<lparr>the_limiter := lim2\<rparr>))) \<and>
         (\<not> Success (ProcessSettlement env payload reqs) \<longrightarrow>
            hybridRateLimitPaymentMiddleware env req s =
              (AbortJSON 402 [(''error'', ''Settlement failed''),
                              (''reason'', ErrorReason (ProcessSettlement env payload reqs))],
               s\<lparr>the_limiter := lim1\<rparr>)) \<and>
         (\<forall>tb. lim1 = Local tb \<longrightarrow>
            limiter_Refill (ClientIP req) (cfg_capacity s) (with_link (link_at_Refill env) lim1) =
              (None, Local (tb\<lparr>tokens := tokens tb + cfg_capacity s\<rparr>))) \<and>
         (\<forall>r c. lim1 = Shared r c \<and> link_at_Refill env \<and> 0 < r_capacity r \<and> 0 < r_refillRate r \<longrightarrow>
            limiter_Refill (ClientIP req) (cfg_capacity s) (with_link (link_at_Refill env) lim1) =
              (None, Shared r (snd (redis_Refill r (ClientIP req) (cfg_capacity s)
                                      (c\<lparr>connected := True\<rparr>)))) \<and>
            HGET_tokens (rdb (snd (redis_Refill r (ClientIP req) (cfg_capacity s)
                                     (c\<lparr>connected := True\<rparr>))))
                (keyPrefix r @ ClientIP req) =
              Some ((case HGET_tokens (rdb c) (keyPrefix r @ ClientIP req) of
                       Some v \<Rightarrow> v | None \<Rightarrow> r_capacity r) + cfg_capacity s)) \<and>
         (\<forall>r c. lim1 = Shared r c \<and> \<not> link_at_Refill env \<longrightarrow>
            limiter_Refill (ClientIP req) (cfg_capacity s) (with_link (link_at_Refill env) lim1) =
              (Some RedisError, Shared r (c\<lparr>connected := False\<rparr>)))"
proof (intro conjI impI allI)
  assume ok: "Success (ProcessSettlement env payload reqs)"
  show "case limiter_Refill (ClientIP req) (cfg_capacity s)
                    (with_link (link_at_Refill env) lim1) of
               (None, lim2) \<Rightarrow>
                 hybridRateLimitPaymentMiddleware env req s =
                   (Next,
                    s\<lparr>the_limiter := lim2,
                      trustTracker :=
                        map_option
                          (\<lambda>t. t\<lparr>payments :=
                                   (payments t)
                                     (extractWalletAddress (lib env) (payment_header req) \<mapsto>
                                        filter (\<lambda>ts. at_cleanup env - Window (config t) < ts)
                                          (payments_of t
                                             (extractWalletAddress (lib env) (payment_header req))
                                           @ [at_RecordSuccess env]))\<rparr>)
                          (trustTracker s)\<rparr>)
             | (Some err, lim2) \<Rightarrow>
                 hybridRateLimitPaymentMiddleware env req s =
                   (AbortJSON 500 [(''error'', ''Refill error'')], s\<lparr>the_limiter := lim2\<rparr>)"
  proof (cases "limiter_Refill (ClientIP req) (cfg_capacity s) (with_link (link_at_Refill env) lim1)")
    case (Pair res lim2)
    show ?thesis
    proof (cases res)
      case None
      then show ?thesis
        using middleware_sync_success[OF assms ok] Pair
        by (simp add: RecordSuccess_explicit)
    next
      case (Some err)
      then show ?thesis
        using middleware_sync_refill_error[OF assms ok] Pair by simp
    qed
  qed
next
  assume "\<not> Success (ProcessSettlement env payload reqs)"
  then show "hybridRateLimitPaymentMiddleware env req s =
              (AbortJSON 402 [(''error'', ''Settlement failed''),
                              (''reason'', ErrorReason (ProcessSettlement env payload reqs))],
               s\<lparr>the_limiter := lim1\<rparr>)"
    by (rule middleware_sync_failure[OF assms])
next
  fix tb assume "lim1 = Local tb"
  then show "limiter_Refill (ClientIP req) (cfg_capacity s) (with_link (link_at_Refill env) lim1) =
              (None, Local (tb\<lparr>tokens := tokens tb + cfg_capacity s\<rparr>))"
    by (simp add: Refill_def)
next
  fix r c
  assume a: "lim1 = Shared r c \<and> link_at_Refill env \<and> 0 < r_capacity r \<and> 0 < r_refillRate r"
  have up: "connected (c\<lparr>connected := True\<rparr>)" by simp
  have nz: "r_refillRate r \<noteq> 0" and pos: "0 < idle_expiry (r_capacity r) (r_refillRate r)"
    using a by (simp_all add: idle_expiry_pos)
  show "limiter_Refill (ClientIP req) (cfg_capacity s) (with_link (link_at_Refill env) lim1) =
              (None, Shared r (snd (redis_Refill r (ClientIP req) (cfg_capacity s)
                                      (c\<lparr>connected := True\<rparr>))))"
    using a by (simp add: redis_Refill_connected[OF up nz])
  show "HGET_tokens (rdb (snd (redis_Refill r (ClientIP req) (cfg_capacity s)
                                     (c\<lparr>connected := True\<rparr>))))
                (keyPrefix r @ ClientIP req) =
              Some ((case HGET_tokens (rdb c) (keyPrefix r @ ClientIP req) of
                       Some v \<Rightarrow> v | None \<Rightarrow> r_capacity r) + cfg_capacity s)"
    by (simp add: redis_Refill_connected[OF up nz] hash_after_refill_script[OF nz pos])
next
  fix r c assume "lim1 = Shared r c \<and> \<not> link_at_Refill env"
  then show "limiter_Refill (ClientIP req) (cfg_capacity s) (with_link (link_at_Refill env) lim1) =
              (Some RedisError, Shared r (c\<lparr>connected := False\<rparr>))"
    by (simp add: redis_Refill_def)
qed

text \<open>
  The theorem at work. A client whose local bucket of capacity 4 is empty pays: when the
  settlement succeeds the bucket holds 4 and the tracker holds the payer's timestamp 2,
  when it fails the answer is 402 and nothing has changed. On the shared limiter the
  count in the hash goes from 0 to 4 and the timestamp joins the payer's earlier one;
  with the connection down at the refill the answer is 500 and the tracker is as it was.
\<close>

theorem synchronous_path_settles_then_refills_witness:
  "(let codec0 = \<lparr>StdEncoding_DecodeString = (\<lambda>h. Some ''json''),
                   URLEncoding_DecodeString = (\<lambda>h. None),
                   unmarshal_from = (\<lambda>d. Some ''0xAB''),
                   strings_ToLower = (\<lambda>f. if f = ''0xAB'' then ''0xab'' else f)\<rparr>;
        env = (\<lambda>ok up. \<lparr>ProcessHTTPRequest = (\<lambda>h. ResultPaymentVerified ''payload'' ''reqs''),
                 ProcessSettlement = (\<lambda>p q. \<lparr>Success = ok, Transaction = ''0xtx'', ErrorReason = ''no funds''\<rparr>),
                 lib = codec0, at_Allow = 0, link_at_Allow = True, link_at_Refill = up,
                 at_IsTrusted = 1, at_Enqueue = 1, at_RecordSuccess = 2, at_cleanup = 2\<rparr>);
        req = \<lparr>ClientIP = ''10.0.0.1'', PAYMENT_SIGNATURE = ''abc'', X_PAYMENT = ''''\<rparr>;
        tb0 = \<lparr>capacity = 4, refillRate = 4, tokens = 0, lastRefillTime = 0\<rparr>;
        s0 = \<lparr>the_limiter = Local tb0, cfg_capacity = 4,
              trustTracker = Some (New \<lparr>Threshold = 3, Window = Hour\<rparr>),
              settlementQueue = Some (NewSettlementQueue 100 0)\<rparr>;
        r = NewRedisTokenBucket 4 4 '''';
        h0 = \<lparr>h_tokens = Some 0, h_last_refill = Some 0, h_ttl = Some 2\<rparr>;
        c0 = \<lparr>connected = True, rdb = [''ratelimit:10.0.0.1'' \<mapsto> h0]\<rparr>;
        t1 = \<lparr>payments = [''0xab'' \<mapsto> [1]], config = \<lparr>Threshold = 3, Window = Hour\<rparr>\<rparr>;
        s1 = \<lparr>the_limiter = Shared r c0, cfg_capacity = 4,
              trustTracker = Some t1, settlementQueue = None\<rparr>
    in hybridRateLimitPaymentMiddleware (env True True) req s0 =
         (Next, s0\<lparr>the_limiter := Local (tb0\<lparr>tokens := 4\<rparr>),
                   trustTracker := Some \<lparr>payments = [''0xab'' \<mapsto> [2]],
                                         config = \<lparr>Threshold = 3, Window = Hour\<rparr>\<rparr>\<rparr>) \<and>
       hybridRateLimitPaymentMiddleware (env False True) req s0 =
         (AbortJSON 402 [(''error'', ''Settlement failed''), (''reason'', ''no funds'')], s0) \<and>
       hybridRateLimitPaymentMiddleware (env True True) req s1 =
         (Next, s1\<lparr>the_limiter :=
                     Shared r \<lparr>connected = True,
                               rdb = [''ratelimit:10.0.0.1'' \<mapsto> h0\<lparr>h_tokens := Some 4\<rparr>]\<rparr>,
                   trustTracker := Some (t1\<lparr>payments := [''0xab'' \<mapsto> [1, 2]]\<rparr>)\<rparr>) \<and>
       hybridRateLimitPaymentMiddleware (env True False) req s1 =
         (AbortJSON 500 [(''error'', ''Refill error'')],
          s1\<lparr>the_limiter := Shared r (c0\<lparr>connected := False\<rparr>)\<rparr>))"
proof -
  let ?codec = "\<lparr>StdEncoding_DecodeString = (\<lambda>h. Some ''json''),
                   URLEncoding_DecodeString = (\<lambda>h. None),
                   unmarshal_from = (\<lambda>d. Some ''0xAB''),
                   strings_ToLower = (\<lambda>f. if f = ''0xAB'' then ''0xab'' else f)\<rparr>"
  let ?env = "\<lambda>ok up. \<lparr>ProcessHTTPRequest = (\<lambda>h. ResultPaymentVerified ''payload'' ''reqs''),
                 ProcessSettlement = (\<lambda>p q. \<lparr>Success = ok, Transaction = ''0xtx'', ErrorReason = ''no funds''\<rparr>),
                 lib = ?codec, at_Allow = 0, link_at_Allow = True, link_at_Refill = up,
                 at_IsTrusted = 1, at_Enqueue = 1, at_RecordSuccess = 2, at_cleanup = 2\<rparr>"
  let ?req = "\<lparr>ClientIP = ''10.0.0.1'', PAYMENT_SIGNATURE = ''abc'', X_PAYMENT = ''''\<rparr>"
  let ?tb0 = "\<lparr>capacity = 4, refillRate = 4, tokens = 0, lastRefillTime = 0\<rparr>"
  let ?t0 = "New \<lparr>Threshold = 3, Window = Hour\<rparr>"
  let ?s0 = "\<lparr>the_limiter = Local ?tb0, cfg_capacity = 4,
              trustTracker = Some ?t0,
              settlementQueue = Some (NewSettlementQueue 100 0)\<rparr>"
  let ?r = "NewRedisTokenBucket 4 4 ''''"
  let ?h0 = "\<lparr>h_tokens = Some 0, h_last_refill = Some 0, h_ttl = Some 2\<rparr>"
  let ?c0 = "\<lparr>connected = True, rdb = [''ratelimit:10.0.0.1'' \<mapsto> ?h0]\<rparr>"
  let ?t1 = "\<lparr>payments = [''0xab'' \<mapsto> [1]], config = \<lparr>Threshold = 3, Window = Hour\<rparr>\<rparr>"
  let ?s1 = "\<lparr>the_limiter = Shared ?r ?c0, cfg_capacity = 4,
              trustTracker = Some ?t1, settlementQueue = None\<rparr>"
  have w: "extractWalletAddress ?codec ''abc'' = ''0xab''"
    by (simp add: extractWalletAddress_def)
  have ph: "payment_header ?req = ''abc''" by (simp add: payment_header_def)
  have a2: "payment_header ?req \<noteq> ''''" by (simp add: payment_header_def)
  have a3: "\<And>ok up. ProcessHTTPRequest (?env ok up) (payment_header ?req) =
              ResultPaymentVerified ''payload'' ''reqs''" by simp
  have t0: "?t0 = \<lparr>payments = Map.empty, config = \<lparr>Threshold = 3, Window = Hour\<rparr>\<rparr>"
    by (simp add: New_def Hour_def)
  have m0: "micro_seconds 0 = 0" "idle_expiry 4 4 = 2" by code_simp+
  have hour: "0 < Hour" "1 < Hour" by (simp_all add: Hour_def)

  have a1: "\<And>ok up. limiter_Allow (at_Allow (?env ok up)) (ClientIP ?req)
              (with_link (link_at_Allow (?env ok up)) (the_limiter ?s0)) = (Inr False, Local ?tb0)"
    by (simp add: Allow_def refill_def Let_def)
  have a4: "\<And>ok up. \<not> optimistic (?s0\<lparr>the_limiter := Local ?tb0\<rparr>) (at_IsTrusted (?env ok up))
                     (extractWalletAddress (lib (?env ok up)) (payment_header ?req))"
    by (simp add: optimistic_def IsTrusted_def countRecent_def New_def Let_def payments_of_def)
  note T = synchronous_path_settles_then_refills[OF a1[of True True] a2 a3[of True True] a4[of True True]]
  note F = synchronous_path_settles_then_refills[OF a1[of False True] a2 a3[of False True] a4[of False True]]
  from T have t: "hybridRateLimitPaymentMiddleware (?env True True) ?req ?s0 =
         (Next, ?s0\<lparr>the_limiter := Local (?tb0\<lparr>tokens := 4\<rparr>),
                   trustTracker := Some \<lparr>payments = [''0xab'' \<mapsto> [2]],
                                         config = \<lparr>Threshold = 3, Window = Hour\<rparr>\<rparr>\<rparr>)"
    unfolding t0 by (simp add: Refill_def ph w payments_of_def hour)
  from F have f: "hybridRateLimitPaymentMiddleware (?env False True) ?req ?s0 =
         (AbortJSON 402 [(''error'', ''Settlement failed''), (''reason'', ''no funds'')], ?s0)"
    by simp

  have b1: "\<And>ok up. limiter_Allow (at_Allow (?env ok up)) (ClientIP ?req)
              (with_link (link_at_Allow (?env ok up)) (the_limiter ?s1)) = (Inr False, Shared ?r ?c0)"
    by (simp add: redis_Allow_def allow_script_def lua_refill_def Let_def NewRedisTokenBucket_def
        HGET_tokens_def HGET_last_refill_def hash_at_def HMSET_def expire_call_def EXPIRE_def m0)
  have b4: "\<And>ok up. \<not> optimistic (?s1\<lparr>the_limiter := Shared ?r ?c0\<rparr>) (at_IsTrusted (?env ok up))
                     (extractWalletAddress (lib (?env ok up)) (payment_header ?req))"
    by (simp add: optimistic_def)
  note U = synchronous_path_settles_then_refills[OF b1[of True True] a2 a3[of True True] b4[of True True]]
  note D = synchronous_path_settles_then_refills[OF b1[of True False] a2 a3[of True False] b4[of True False]]
  have rf: "redis_Refill ?r ''10.0.0.1'' 4 ?c0 =
              (None, \<lparr>connected = True,
                      rdb = [''ratelimit:10.0.0.1'' \<mapsto> ?h0\<lparr>h_tokens := Some 4\<rparr>]\<rparr>)"
    by (simp add: redis_Refill_def refill_script_def Let_def NewRedisTokenBucket_def
        HGET_tokens_def hash_at_def HSET_tokens_def expire_call_def EXPIRE_def m0)
  from U have u: "hybridRateLimitPaymentMiddleware (?env True True) ?req ?s1 =
         (Next, ?s1\<lparr>the_limiter :=
                     Shared ?r \<lparr>connected = True,
                               rdb = [''ratelimit:10.0.0.1'' \<mapsto> ?h0\<lparr>h_tokens := Some 4\<rparr>]\<rparr>,
                   trustTracker := Some (?t1\<lparr>payments := [''0xab'' \<mapsto> [1, 2]]\<rparr>)\<rparr>)"
    by (simp add: rf ph w payments_of_def hour)
  from D have d: "hybridRateLimitPaymentMiddleware (?env True False) ?req ?s1 =
         (AbortJSON 500 [(''error'', ''Refill error'')],
          ?s1\<lparr>the_limiter := Shared ?r (?c0\<lparr>connected := False\<rparr>)\<rparr>)"
    by (simp add: redis_Refill_def)
  show ?thesis unfolding Let_def using t f u d by simp
qed

text \<open>
  Claim C9, as amended. The payer id is \<^verbatim>\<open>strings.ToLower\<close> of the
  \<^verbatim>\<open>payload.authorization.from\<close> of the payment header, decoded as standard base64 first
  and as URL-safe base64 if that fails, then parsed as JSON; an empty header, a header
  neither decoder accepts and a document that does not parse give the empty payer id, and
  so does a document without the field (\<^verbatim>\<open>strings.ToLower\<close> leaving the empty string
  empty). The tracker treats the empty id as any other: it is untrusted on a new tracker
  and for as long as no success is on record for it, and it is trusted exactly when the
  successes on record for it, newer than \<open>now - window\<close>, reach the threshold.
\<close>

theorem payer_id_from_header:
  assumes "sorted (readings evs @ [now])"
  shows
  "(paymentHeader \<noteq> '''' \<and> StdEncoding_DecodeString cdc paymentHeader = Some decoded \<and>
    unmarshal_from cdc decoded = Some f
      \<longrightarrow> extractWalletAddress cdc paymentHeader = strings_ToLower cdc f) \<and>
   (paymentHeader \<noteq> '''' \<and> StdEncoding_DecodeString cdc paymentHeader = None \<and>
    URLEncoding_DecodeString cdc paymentHeader = Some decoded \<and>
    unmarshal_from cdc decoded = Some f
      \<longrightarrow> extractWalletAddress cdc paymentHeader = strings_ToLower cdc f) \<and>
   (paymentHeader = '''' \<or>
    (StdEncoding_DecodeString cdc paymentHeader = None \<and>
     URLEncoding_DecodeString cdc paymentHeader = None)
      \<longrightarrow> extractWalletAddress cdc paymentHeader = '''') \<and>
   ((StdEncoding_DecodeString cdc paymentHeader = Some decoded \<or>
     (StdEncoding_DecodeString cdc paymentHeader = None \<and>
      URLEncoding_DecodeString cdc paymentHeader = Some decoded)) \<and>
    (unmarshal_from cdc decoded = None \<or>
     (unmarshal_from cdc decoded = Some '''' \<and> strings_ToLower cdc '''' = ''''))
      \<longrightarrow> extractWalletAddress cdc paymentHeader = '''') \<and>
   \<not> IsTrusted (New cfg) now '''' \<and>
   (recorded [] evs '''' = [] \<longrightarrow> \<not> IsTrusted (track_all evs (New cfg)) now '''') \<and>
   (IsTrusted (track_all evs (New cfg)) now '''' \<longleftrightarrow>
      Threshold (config (New cfg)) \<le>
        int (length (filter (\<lambda>ts. now - Window (config (New cfg)) < ts) (recorded [] evs ''''))))"
proof (intro conjI impI)
  show "\<not> IsTrusted (New cfg) now ''''"
    using New_config(1)[of cfg] by (simp add: IsTrusted_def countRecent_def Let_def New_payments)
  show iff: "IsTrusted (track_all evs (New cfg)) now '''' \<longleftrightarrow>
      Threshold (config (New cfg)) \<le>
        int (length (filter (\<lambda>ts. now - Window (config (New cfg)) < ts) (recorded [] evs '''')))"
    unfolding IsTrusted_def recorded_history[OF assms] track_all_config by simp
  assume "recorded [] evs '''' = []"
  then show "\<not> IsTrusted (track_all evs (New cfg)) now ''''"
    unfolding iff using New_config(1)[of cfg] by simp
qed (auto simp: extractWalletAddress_def)

text \<open>
  The theorem at work, with stand-ins for the library: a header that decodes to a document
  whose \<^verbatim>\<open>from\<close> is \<^verbatim>\<open>0xAB\<close> gives the payer id \<^verbatim>\<open>0xab\<close>; a header that no decoder accepts
  gives the empty id, and so does a document without the field; the empty id is not
  trusted after a payment of another payer.
\<close>

theorem payer_id_from_header_witness:
  "extractWalletAddress
     \<lparr>StdEncoding_DecodeString = (\<lambda>h. if h = ''abc'' then Some ''doc'' else None),
      URLEncoding_DecodeString = (\<lambda>h. if h = ''a-c'' then Some ''doc2'' else None),
      unmarshal_from = (\<lambda>d. if d = ''doc'' then Some ''0xAB'' else Some ''''),
      strings_ToLower = (\<lambda>f. if f = ''0xAB'' then ''0xab'' else f)\<rparr> ''abc'' = ''0xab'' \<and>
   extractWalletAddress
     \<lparr>StdEncoding_DecodeString = (\<lambda>h. if h = ''abc'' then Some ''doc'' else None),
      URLEncoding_DecodeString = (\<lambda>h. if h = ''a-c'' then Some ''doc2'' else None),
      unmarshal_from = (\<lambda>d. if d = ''doc'' then Some ''0xAB'' else Some ''''),
      strings_ToLower = (\<lambda>f. if f = ''0xAB'' then ''0xab'' else f)\<rparr> ''a?c'' = '''' \<and>
   extractWalletAddress
     \<lparr>StdEncoding_DecodeString = (\<lambda>h. if h = ''abc'' then Some ''doc'' else None),
      URLEncoding_DecodeString = (\<lambda>h. if h = ''a-c'' then Some ''doc2'' else None),
      unmarshal_from = (\<lambda>d. if d = ''doc'' then Some ''0xAB'' else Some ''''),
      strings_ToLower = (\<lambda>f. if f = ''0xAB'' then ''0xab'' else f)\<rparr> ''a-c'' = '''' \<and>
   \<not> IsTrusted (track_all [EvSuccess ''0xab'' 1 1] (New \<lparr>Threshold = 1, Window = Hour\<rparr>)) 2 ''''"
proof -
  let ?cdc = "\<lparr>StdEncoding_DecodeString = (\<lambda>h. if h = ''abc'' then Some ''doc'' else None),
      URLEncoding_DecodeString = (\<lambda>h. if h = ''a-c'' then Some ''doc2'' else None),
      unmarshal_from = (\<lambda>d. if d = ''doc'' then Some ''0xAB'' else Some ''''),
      strings_ToLower = (\<lambda>f. if f = ''0xAB'' then ''0xab'' else f)\<rparr>"
  let ?evs = "[EvSuccess ''0xab'' 1 1]"
  have s: "sorted (readings ?evs @ [2])" by simp
  note T = payer_id_from_header[OF s, of "''abc''" ?cdc "''doc''" "''0xAB''" "\<lparr>Threshold = 1, Window = Hour\<rparr>"]
  note U = payer_id_from_header[OF s, of "''a?c''" ?cdc "''doc''" "''0xAB''" "\<lparr>Threshold = 1, Window = Hour\<rparr>"]
  note V = payer_id_from_header[OF s, of "''a-c''" ?cdc "''doc2''" "''0xAB''" "\<lparr>Threshold = 1, Window = Hour\<rparr>"]
  have r: "recorded [] ?evs '''' = []" by simp
  have A: "extractWalletAddress ?cdc ''abc'' = ''0xab''"
    using T[THEN conjunct1] by simp
  have B: "extractWalletAddress ?cdc ''a?c'' = ''''"
    using U[THEN conjunct2, THEN conjunct2, THEN conjunct1] by simp
  have C: "extractWalletAddress ?cdc ''a-c'' = ''''"
    using V[THEN conjunct2, THEN conjunct2, THEN conjunct2, THEN conjunct1] by simp
  have D: "\<not> IsTrusted (track_all ?evs (New \<lparr>Threshold = 1, Window = Hour\<rparr>)) 2 ''''"
    using T[THEN conjunct2, THEN conjunct2, THEN conjunct2, THEN conjunct2, THEN conjunct2,
            THEN conjunct1] r by (rule mp)
  from A B C D show ?thesis by simp
qed

text \<open>
  Claim C9 as stated fails on its last part: the synchronous path records its successes
  under the empty payer id too. With a threshold of 3, after three settled payments whose
  document has no \<^verbatim>\<open>from\<close> field (each followed by the request its refill pays for), the
  tracker trusts the empty id, and the next such payment is served optimistically and
  queued under the empty wallet address.
\<close>

theorem empty_payer_id_becomes_trusted:
  "(let cdc = \<lparr>StdEncoding_DecodeString = (\<lambda>h. Some ''doc''),
               URLEncoding_DecodeString = (\<lambda>h. None),
               unmarshal_from = (\<lambda>d. Some ''''),
               strings_ToLower = (\<lambda>f. if f = ''0xAB'' then ''0xab'' else f)\<rparr>;
        env = \<lparr>ProcessHTTPRequest = (\<lambda>h. ResultPaymentVerified ''payload'' ''reqs''),
               ProcessSettlement = (\<lambda>p q. \<lparr>Success = True, Transaction = ''0xtx'', ErrorReason = ''''\<rparr>),
               lib = cdc, at_Allow = 0, link_at_Allow = True, link_at_Refill = True,
               at_IsTrusted = 1, at_Enqueue = 1, at_RecordSuccess = 1, at_cleanup = 1\<rparr>;
        req = \<lparr>ClientIP = ''10.0.0.1'', PAYMENT_SIGNATURE = ''abc'', X_PAYMENT = ''''\<rparr>;
        s0 = \<lparr>the_limiter = Local \<lparr>capacity = 1, refillRate = 1, tokens = 0, lastRefillTime = 0\<rparr>,
              cfg_capacity = 1,
              trustTracker = Some (New \<lparr>Threshold = 3, Window = Hour\<rparr>),
              settlementQueue = Some (NewSettlementQueue 100 0)\<rparr>;
        s6 = snd (serve [(env, req), (env, req), (env, req), (env, req), (env, req), (env, req)] s0);
        s7 = snd (hybridRateLimitPaymentMiddleware env req s6)
    in extractWalletAddress cdc ''abc'' = '''' \<and>
       (case trustTracker s6 of None \<Rightarrow> False | Some t \<Rightarrow> IsTrusted t 1 '''') \<and>
       optimistic s6 1 '''' \<and>
       fst (hybridRateLimitPaymentMiddleware env req s6) = Next \<and>
       (case settlementQueue s7 of None \<Rightarrow> False
        | Some sq \<Rightarrow> map WalletAddr (jobs sq) = ['''']))"
  by (simp add: Let_def hybridRateLimitPaymentMiddleware_def extractWalletAddress_def
      optimistic_def queue_of_def IsTrusted_def countRecent_def payments_of_def New_def
      RecordSuccess_def cleanup_def Hour_def NewSettlementQueue_def Enqueue_def
      Allow_def Refill_def refill_def)

end
